theory Spec2Isabelle
  imports Main "HOL-Library.Char_ord" "HOL-Library.List_Lexorder"
begin

section \<open>SpecGate: the response interception hook of the validating proxy\<close>

text \<open>
  A shallow embedding of \<^verbatim>\<open>proxy.go\<close>. Go strings and byte slices are \<^typ>\<open>string\<close>
  (lists of 8-bit characters), Go errors are represented by their message
  (\<^verbatim>\<open>err.Error()\<close>), and a function that returns \<^verbatim>\<open>(T, error)\<close> returns a sum with the
  error on the left.
\<close>

type_synonym error = string

subsection \<open>Package strings\<close>

definition isASCII :: "char \<Rightarrow> bool" where
  "isASCII c = (of_char c < (128::nat))"

definition lowerASCII :: "char \<Rightarrow> char" where
  "lowerASCII c =
     (case map_of (zip ''ABCDEFGHIJKLMNOPQRSTUVWXYZ'' ''abcdefghijklmnopqrstuvwxyz'') c of
        Some l \<Rightarrow> l
      | None \<Rightarrow> c)"

definition upperASCII :: "char \<Rightarrow> char" where
  "upperASCII c =
     (case map_of (zip ''abcdefghijklmnopqrstuvwxyz'' ''ABCDEFGHIJKLMNOPQRSTUVWXYZ'') c of
        Some u \<Rightarrow> u
      | None \<Rightarrow> c)"

text \<open>
  \<^verbatim>\<open>strings.ToLower\<close>: a string of ASCII bytes only is lower-cased byte by byte; any other
  string goes through \<^verbatim>\<open>strings.Map(unicode.ToLower, s)\<close>, whose Unicode tables are not part
  of this repository and are taken as the parameter \<open>unicodeLower\<close>.
\<close>

definition ToLower :: "(string \<Rightarrow> string) \<Rightarrow> string \<Rightarrow> string" where
  "ToLower unicodeLower s = (if list_all isASCII s then map lowerASCII s else unicodeLower s)"

fun HasPrefix :: "string \<Rightarrow> string \<Rightarrow> bool" where
  "HasPrefix s [] = True"
| "HasPrefix [] (p # ps) = False"
| "HasPrefix (c # cs) (p # ps) = (c = p \<and> HasPrefix cs ps)"

text \<open>\<^verbatim>\<open>strings.Contains(s, substr)\<close>: \<open>substr\<close> occurs in \<open>s\<close> at some offset.\<close>

fun Contains :: "string \<Rightarrow> string \<Rightarrow> bool" where
  "Contains [] substr = (substr = [])"
| "Contains (c # cs) substr = (HasPrefix (c # cs) substr \<or> Contains cs substr)"

subsection \<open>Package strconv\<close>

fun digits :: "nat \<Rightarrow> string" where
  "digits n =
     (if n < 10 then [''0123456789'' ! n]
      else digits (n div 10) @ [''0123456789'' ! (n mod 10)])"

declare digits.simps [simp del]

text \<open>\<^verbatim>\<open>strconv.Itoa\<close> and \<^verbatim>\<open>strconv.FormatInt(i, 10)\<close>.\<close>

definition Itoa :: "int \<Rightarrow> string" where
  "Itoa i = (if i < 0 then CHR ''-'' # digits (nat (- i)) else digits (nat i))"

datatype NumError = ErrSyntax | ErrRange

definition digitVal :: "char \<Rightarrow> nat option" where
  "digitVal c =
     map_of (zip ''0123456789'' [0, 1, 2, 3, 4, 5, 6, 7, 8, 9]) c"

text \<open>
  The digit loop of \<^verbatim>\<open>strconv.ParseUint(s, 10, 64)\<close>: a byte that is not a decimal digit is
  a syntax error, and the loop stops with a range error as soon as the value no longer
  fits 64 bits.
\<close>

fun parseUintLoop :: "nat \<Rightarrow> string \<Rightarrow> NumError + nat" where
  "parseUintLoop n [] = Inr n"
| "parseUintLoop n (c # cs) =
     (case digitVal c of
        None \<Rightarrow> Inl ErrSyntax
      | Some d \<Rightarrow>
          if n * 10 + d \<ge> 2 ^ 64 then Inl ErrRange
          else parseUintLoop (n * 10 + d) cs)"

definition ParseUint :: "string \<Rightarrow> NumError + nat" where
  "ParseUint s = (if s = [] then Inl ErrSyntax else parseUintLoop 0 s)"

text \<open>\<^verbatim>\<open>strconv.ParseInt(s, 10, 64)\<close>: an optional sign, then \<^verbatim>\<open>ParseUint\<close> and the range
  check of a signed 64-bit integer.\<close>

definition ParseInt :: "string \<Rightarrow> NumError + int" where
  "ParseInt s =
     (case s of
        [] \<Rightarrow> Inl ErrSyntax
      | c # cs \<Rightarrow>
          let neg = (c = CHR ''-'');
              s' = (if c = CHR ''+'' \<or> c = CHR ''-'' then cs else s)
          in (case ParseUint s' of
                Inl e \<Rightarrow> Inl e
              | Inr un \<Rightarrow>
                  if \<not> neg \<and> un \<ge> 2 ^ 63 then Inl ErrRange
                  else if neg \<and> un > 2 ^ 63 then Inl ErrRange
                  else Inr (if neg then - int un else int un)))"

subsection \<open>Modes\<close>

type_synonym Mode = string

definition ModeStrict :: Mode where "ModeStrict = ''strict''"
definition ModeWarn :: Mode where "ModeWarn = ''warn''"
definition ModeReport :: Mode where "ModeReport = ''report''"

definition invalidModeError :: "string \<Rightarrow> error" where
  "invalidModeError mode =
     ''invalid mode '' @ [CHR 0x27] @ mode @ [CHR 0x27] @
     '': must be one of 'strict', 'warn', or 'report'' @ [CHR 0x27]"

definition parseMode :: "(string \<Rightarrow> string) \<Rightarrow> string \<Rightarrow> error + Mode" where
  "parseMode unicodeLower mode =
     (let m = ToLower unicodeLower mode
      in if m = ''strict'' then Inr ModeStrict
         else if m = ''warn'' then Inr ModeWarn
         else if m = ''report'' then Inr ModeReport
         else Inl (invalidModeError mode))"

text \<open>
  Case variants, as the specification of \<^verbatim>\<open>ParseMode\<close> speaks of them: \<open>s\<close> is a case
  variant of \<open>t\<close> when it has the bytes of \<open>t\<close>, each as it is or as its upper-case letter.
\<close>

fun caseVariant :: "string \<Rightarrow> string \<Rightarrow> bool" where
  "caseVariant [] [] = True"
| "caseVariant (a # as) (b # bs) = ((a = b \<or> a = upperASCII b) \<and> caseVariant as bs)"
| "caseVariant [] (b # bs) = False"
| "caseVariant (a # as) [] = False"

definition lowerLetter :: "char \<Rightarrow> bool" where
  "lowerLetter c = (c \<in> set ''abcdefghijklmnopqrstuvwxyz'')"

subsection \<open>Classification of resolver failures\<close>

definition undocumentedPatterns :: "string list" where
  "undocumentedPatterns =
     [''no matching operation'',
      ''path not found'',
      ''no route found'',
      ''operation not found'',
      ''no match found'',
      ''unknown path'']"

text \<open>The loop over the patterns, which returns at the first pattern found.\<close>

fun matchPatterns :: "string \<Rightarrow> string list \<Rightarrow> bool" where
  "matchPatterns errMsg [] = False"
| "matchPatterns errMsg (pattern # rest) =
     (if Contains errMsg pattern then True else matchPatterns errMsg rest)"

definition isUndocumentedEndpoint :: "(string \<Rightarrow> string) \<Rightarrow> error option \<Rightarrow> bool" where
  "isUndocumentedEndpoint unicodeLower err =
     (case err of
        None \<Rightarrow> False
      | Some msg \<Rightarrow> matchPatterns (ToLower unicodeLower msg) undocumentedPatterns)"

subsection \<open>HTTP headers\<close>

text \<open>
  \<^verbatim>\<open>http.Header\<close> is a map from canonical keys to lists of values. \<^verbatim>\<open>Get\<close>, \<^verbatim>\<open>Set\<close> and
  \<^verbatim>\<open>Del\<close> canonicalise the key they are given (\<^verbatim>\<open>textproto.CanonicalMIMEHeaderKey\<close>): a key
  made of token bytes only gets an upper-case first letter and an upper-case letter after
  each hyphen, all other letters lower-case; any other key is left as it is.
\<close>

type_synonym Header = "string \<rightharpoonup> string list"

definition validHeaderFieldByte :: "char \<Rightarrow> bool" where
  "validHeaderFieldByte c =
     (c \<in> set ''abcdefghijklmnopqrstuvwxyz'' \<or> c \<in> set ''ABCDEFGHIJKLMNOPQRSTUVWXYZ'' \<or>
      c \<in> set ''0123456789'' \<or> c \<in> set ''!#$%&*+-.^_`|~'' \<or> c = CHR 0x27)"

fun canonicalise :: "bool \<Rightarrow> string \<Rightarrow> string" where
  "canonicalise upper [] = []"
| "canonicalise upper (c # cs) =
     (let c' = (if upper then upperASCII c else lowerASCII c)
      in c' # canonicalise (c' = CHR ''-'') cs)"

definition CanonicalMIMEHeaderKey :: "string \<Rightarrow> string" where
  "CanonicalMIMEHeaderKey s =
     (if list_all validHeaderFieldByte s then canonicalise True s else s)"

definition Get :: "Header \<Rightarrow> string \<Rightarrow> string" where
  "Get h key =
     (case h (CanonicalMIMEHeaderKey key) of
        None \<Rightarrow> []
      | Some [] \<Rightarrow> []
      | Some (v # vs) \<Rightarrow> v)"

definition Set :: "Header \<Rightarrow> string \<Rightarrow> string \<Rightarrow> Header" where
  "Set h key v = h(CanonicalMIMEHeaderKey key \<mapsto> [v])"

definition Del :: "Header \<Rightarrow> string \<Rightarrow> Header" where
  "Del h key = h(CanonicalMIMEHeaderKey key := None)"

subsection \<open>Package encoding/json: marshalling a map of strings\<close>

definition RuneError :: nat where
  "RuneError = 0xFFFD"

text \<open>
  \<^verbatim>\<open>utf8.DecodeRuneInString\<close>: the code point at the head of the string and the number of
  bytes it takes; a byte sequence that is not valid UTF-8 gives \<open>(RuneError, 1)\<close>.
\<close>

definition DecodeRune :: "string \<Rightarrow> nat \<times> nat" where
  "DecodeRune s =
     (case s of
        [] \<Rightarrow> (RuneError, 0)
      | c0 # rest \<Rightarrow>
          let b0 = (of_char c0 :: nat)
          in if b0 < 0x80 then (b0, 1)
             else if b0 < 0xC2 \<or> 0xF4 < b0 then (RuneError, 1)
             else
               let sz = (if b0 < 0xE0 then 2 else if b0 < 0xF0 then 3 else (4::nat));
                   lo = (if b0 = 0xE0 then 0xA0 else if b0 = 0xF0 then 0x90 else (0x80::nat));
                   hi = (if b0 = 0xED then 0x9F else if b0 = 0xF4 then 0x8F else (0xBF::nat))
               in if length s < sz then (RuneError, 1)
                  else
                    let b1 = (of_char (s ! 1) :: nat)
                    in if b1 < lo \<or> hi < b1 then (RuneError, 1)
                       else if sz = 2 then ((b0 mod 32) * 64 + b1 mod 64, 2)
                       else
                         let b2 = (of_char (s ! 2) :: nat)
                         in if b2 < 0x80 \<or> 0xBF < b2 then (RuneError, 1)
                            else if sz = 3
                              then ((b0 mod 16) * 4096 + (b1 mod 64) * 64 + b2 mod 64, 3)
                            else
                              let b3 = (of_char (s ! 3) :: nat)
                              in if b3 < 0x80 \<or> 0xBF < b3 then (RuneError, 1)
                                 else ((b0 mod 8) * 262144 + (b1 mod 64) * 4096 +
                                       (b2 mod 64) * 64 + b3 mod 64, 4))"

definition hexDigit :: "nat \<Rightarrow> char" where
  "hexDigit n = ''0123456789abcdef'' ! n"

definition quote :: char where "quote = CHR 0x22"
definition backslash :: char where "backslash = CHR 0x5C"

text \<open>The bytes that \<^verbatim>\<open>json.Marshal\<close> copies as they are (\<^verbatim>\<open>htmlSafeSet\<close>).\<close>

definition htmlSafe :: "char \<Rightarrow> bool" where
  "htmlSafe c =
     (0x20 \<le> (of_char c :: nat) \<and> (of_char c :: nat) < 0x80 \<and>
      c \<noteq> quote \<and> c \<noteq> backslash \<and> c \<noteq> CHR ''<'' \<and> c \<noteq> CHR ''>'' \<and> c \<noteq> CHR ''&'')"

definition escapeByte :: "char \<Rightarrow> string" where
  "escapeByte c =
     (if c = backslash \<or> c = quote then [backslash, c]
      else if c = CHR 0x08 then [backslash, CHR ''b'']
      else if c = CHR 0x0C then [backslash, CHR ''f'']
      else if c = CHR 0x0A then [backslash, CHR ''n'']
      else if c = CHR 0x0D then [backslash, CHR ''r'']
      else if c = CHR 0x09 then [backslash, CHR ''t'']
      else [backslash, CHR ''u'', CHR ''0'', CHR ''0'',
            hexDigit ((of_char c :: nat) div 16), hexDigit ((of_char c :: nat) mod 16)])"

text \<open>
  The loop of \<^verbatim>\<open>appendString\<close> with HTML escaping on, as \<^verbatim>\<open>json.Marshal\<close> runs it: it
  gives the bytes between the two quotes.
\<close>

function escapeString :: "string \<Rightarrow> string" where
  "escapeString [] = []"
| "escapeString (c # cs) =
     (if isASCII c then
        (if htmlSafe c then c # escapeString cs else escapeByte c @ escapeString cs)
      else
        (case DecodeRune (c # cs) of (r, width) \<Rightarrow>
           if r = RuneError \<and> width = 1
             then backslash # ''ufffd'' @ escapeString cs
           else if r = 0x2028 \<or> r = 0x2029
             then backslash # ''u202'' @ [hexDigit (r mod 16)] @ escapeString (drop (width - 1) cs)
           else take width (c # cs) @ escapeString (drop (width - 1) cs)))"
  by pat_completeness auto
termination
  by (relation "measure length") auto

definition appendString :: "string \<Rightarrow> string" where
  "appendString s = quote # escapeString s @ [quote]"

fun joinMembers :: "(string \<times> string) list \<Rightarrow> string" where
  "joinMembers [] = []"
| "joinMembers [(k, v)] = appendString k @ '':'' @ appendString v"
| "joinMembers ((k, v) # kvs) = appendString k @ '':'' @ appendString v @ '','' @ joinMembers kvs"

text \<open>
  \<^verbatim>\<open>json.Marshal\<close> of a \<^verbatim>\<open>map[string]string\<close>, given as the entries of the map literal (whose
  keys are distinct): the members are written in the byte order of their keys.
\<close>

definition Marshal :: "(string \<times> string) list \<Rightarrow> string" where
  "Marshal m = ''{'' @ joinMembers (sort_key fst m) @ ''}''"



subsection \<open>Unicode lower-casing\<close>

text \<open>
  \<^verbatim>\<open>strings.Map(unicode.ToLower, s)\<close>, which \<^verbatim>\<open>strings.ToLower\<close> runs on a string with a byte
  that is not ASCII: the string is read as UTF-8, code point by code point; an ASCII
  byte is lower-cased, a byte that is not valid UTF-8 becomes U+FFFD, and every other
  code point is replaced by its lower case. Two code points have an ASCII letter as
  their lower case: U+0130 (capital I with dot above, bytes C4 B0), whose lower case is
  \<^verbatim>\<open>i\<close>, and U+212A (the Kelvin sign, bytes E2 84 AA), whose lower case is \<^verbatim>\<open>k\<close>. The
  table for the remaining code points, from the UTF-8 of a code point to the UTF-8 of its
  lower case, is the parameter \<open>other\<close>.
\<close>

definition dottedI :: string where
  "dottedI = [CHR 0xC4, CHR 0xB0]"

definition kelvinSign :: string where
  "kelvinSign = [CHR 0xE2, CHR 0x84, CHR 0xAA]"

definition replacementChar :: string where
  "replacementChar = [CHR 0xEF, CHR 0xBF, CHR 0xBD]"

definition lowerRune :: "(string \<Rightarrow> string) \<Rightarrow> string \<Rightarrow> string" where
  "lowerRune other p =
     (if p = dottedI then ''i'' else if p = kelvinSign then ''k'' else other p)"

function MapToLower :: "(string \<Rightarrow> string) \<Rightarrow> string \<Rightarrow> string" where
  "MapToLower other [] = []"
| "MapToLower other (c # cs) =
     (if isASCII c then lowerASCII c # MapToLower other cs
      else
        (case DecodeRune (c # cs) of (r, width) \<Rightarrow>
           if r = RuneError \<and> width = 1 then replacementChar @ MapToLower other cs
           else lowerRune other (take width (c # cs)) @
                MapToLower other (drop (width - 1) cs)))"
  by pat_completeness auto
termination
  by (relation "measure (\<lambda>(other, s). length s)") auto

declare MapToLower.simps [simp del]

text \<open>What is known of the table: the lower case of a code point beyond ASCII, other
  than the two above, is itself beyond ASCII.\<close>

definition nonASCIILower :: "(string \<Rightarrow> string) \<Rightarrow> bool" where
  "nonASCIILower other =
     (\<forall>p. p \<noteq> [] \<and> \<not> isASCII (hd p) \<longrightarrow> other p \<noteq> [] \<and> \<not> isASCII (hd (other p)))"

text \<open>
  Case variants when the lower-casing is Unicode's: each byte of \<open>t\<close> as it is or as its
  upper-case letter, or U+0130 for \<^verbatim>\<open>i\<close>, or U+212A for \<^verbatim>\<open>k\<close>.
\<close>

fun unicodeVariant :: "string \<Rightarrow> string \<Rightarrow> bool" where
  "unicodeVariant s [] = (s = [])"
| "unicodeVariant s (b # bs) =
     (case s of
        [] \<Rightarrow> False
      | a # as \<Rightarrow>
          ((a = b \<or> a = upperASCII b) \<and> unicodeVariant as bs) \<or>
          (b = CHR ''i'' \<and> HasPrefix s dottedI \<and> unicodeVariant (drop 2 s) bs) \<or>
          (b = CHR ''k'' \<and> HasPrefix s kelvinSign \<and> unicodeVariant (drop 3 s) bs))"

subsection \<open>Package log/slog and the colored handler\<close>

type_synonym Level = int

definition LevelDebug :: Level where "LevelDebug = - 4"
definition LevelInfo :: Level where "LevelInfo = 0"
definition LevelWarn :: Level where "LevelWarn = 4"
definition LevelError :: Level where "LevelError = 8"

text \<open>
  The attribute values this program logs: strings, integers and errors (\<^verbatim>\<open>slog.AnyValue\<close> of
  an error, kept as its message); \<open>NilValue\<close> is the zero \<^verbatim>\<open>slog.Value\<close>.
\<close>

datatype Value = StringValue string | Int64Value int | AnyValue error | NilValue

record Attr =
  Key :: string
  Value :: Value

record Record =
  Level :: Level
  Message :: string
  Attrs :: "Attr list"

text \<open>
  A slice is a window on a backing array: the address of the array, the offset of the
  window and its length. A slice of length 0 (such as \<^verbatim>\<open>nil\<close>) reads no memory.
\<close>

record Slice =
  array :: nat
  offset :: nat
  len :: nat

record ColoredHandler =
  out :: nat
  level :: Level
  attrs :: Slice

definition Enabled :: "ColoredHandler \<Rightarrow> Level \<Rightarrow> bool" where
  "Enabled h l = (l \<ge> level h)"

subsection \<open>Responses and body streams\<close>

text \<open>
  A body stream is read once: \<open>pending\<close> are the bytes it has not delivered yet, and
  \<open>fault\<close> is the error it ends with instead of \<^verbatim>\<open>io.EOF\<close>, if any (a connection reset, a
  truncated transfer), reported by the read that follows the last byte.
\<close>

record Reader =
  pending :: string
  fault :: "error option"

text \<open>\<^verbatim>\<open>bytes.NewReader(b)\<close>\<close>

definition NewReader :: "string \<Rightarrow> Reader" where
  "NewReader b = \<lparr>pending = b, fault = None\<rparr>"

text \<open>
  \<^verbatim>\<open>io.ReadAll(io.LimitReader(r, n))\<close>: the bytes read, the error of \<^verbatim>\<open>ReadAll\<close> and the
  stream \<open>r\<close> afterwards. The limited reader reports the end of input after \<open>n\<close> bytes
  without reading \<open>r\<close> any further.
\<close>

definition ReadAllLimit :: "Reader \<Rightarrow> int \<Rightarrow> string \<times> error option \<times> Reader" where
  "ReadAllLimit r n =
     (if n \<le> int (length (pending r))
      then (take (nat n) (pending r), None, r\<lparr>pending := drop (nat n) (pending r)\<rparr>)
      else (pending r, fault r, r\<lparr>pending := []\<rparr>))"

record Request =
  Method :: string
  Path :: string
  RawQuery :: string

record Response =
  StatusCode :: int
  Header :: Header
  Body :: Reader
  Request :: Request

type_synonym Route = string
type_synonym PathParams = "string \<rightharpoonup> string"

record ResponseValidationInput =
  InputRequest :: Request
  InputPathParams :: PathParams
  InputRoute :: Route
  InputStatus :: int
  InputHeader :: Header
  InputBody :: string

text \<open>
  The proxy, with the fields the hook reads. \<open>router\<close> is \<open>None\<close> when
  \<^verbatim>\<open>gorillamux.NewRouter\<close> failed (its error is dropped by \<^verbatim>\<open>NewValidatingProxy\<close>, which
  leaves a nil router); otherwise it is the router's \<^verbatim>\<open>FindRoute\<close>.
\<close>

record ValidatingProxy =
  mode :: Mode
  logger :: ColoredHandler
  router :: "(Request \<Rightarrow> error + Route \<times> PathParams) option"

text \<open>
  What the hook uses from outside the repository: the Unicode lower-casing of
  \<^verbatim>\<open>strings.ToLower\<close> and the schema validator \<^verbatim>\<open>openapi3filter.ValidateResponse\<close>, which
  returns the validation error or nothing.
\<close>

record Library =
  unicodeLower :: "string \<Rightarrow> string"
  ValidateResponse :: "ResponseValidationInput \<Rightarrow> error option"

text \<open>
  The effects of one run of the hook, in order: a record passed to the log handler, a
  call of the router, a call of the validator.
\<close>

datatype Event =
  Logged Record
| RouteLookup Request
| Validation ResponseValidationInput

datatype Outcome = ReturnNil | ReturnErr error | Panic

record HookResult =
  ret :: Outcome
  response :: Response
  events :: "Event list"
  stream :: Reader

text \<open>A call of \<^verbatim>\<open>vp.logger.Warn\<close> or \<^verbatim>\<open>vp.logger.Error\<close>: the logger hands the record to
  its handler when the handler is enabled for the level.\<close>

definition logRecord :: "ColoredHandler \<Rightarrow> Level \<Rightarrow> string \<Rightarrow> Attr list \<Rightarrow> Event list" where
  "logRecord h l msg as =
     (if Enabled h l then [Logged \<lparr>Level = l, Message = msg, Attrs = as\<rparr>] else [])"

definition maxSize :: int where
  "maxSize = 10 * 1024 * 1024"

subsection \<open>The hook \<^verbatim>\<open>validateResponse\<close>\<close>

text \<open>
  The rewrite of a response that failed validation in strict mode (the body of
  \<^verbatim>\<open>if vp.mode == ModeStrict\<close>).
\<close>

definition replaceResponseWithError :: "Response \<Rightarrow> error \<Rightarrow> Response" where
  "replaceResponseWithError resp err =
     (let errorBody = Marshal [(''error'', ''Response validation failed''), (''details'', err)];
          h1 = Set (Header resp) ''Content-Type'' ''application/json'';
          h2 = Set h1 ''Content-Length'' (Itoa (int (length errorBody)));
          h3 = Del h2 ''Content-Encoding'';
          h4 = Del h3 ''Transfer-Encoding'';
          h5 = Del h4 ''ETag'';
          h6 = Del h5 ''Last-Modified''
      in resp\<lparr>Body := NewReader errorBody, StatusCode := 500, Header := h6\<rparr>)"

text \<open>The input handed to the validator: the request, the route found, and the status,
  headers and buffered body of the response.\<close>

definition validationInput ::
  "Response \<Rightarrow> Route \<Rightarrow> PathParams \<Rightarrow> string \<Rightarrow> ResponseValidationInput" where
  "validationInput resp route pathParams bodyBytes =
     \<lparr>InputRequest = Request resp, InputPathParams = pathParams, InputRoute = route,
      InputStatus = StatusCode resp, InputHeader = Header resp, InputBody = bodyBytes\<rparr>"

text \<open>
  The hook from the route lookup on, for a response whose body has been buffered as
  \<open>bodyBytes\<close>: the value returned, the response as it is left, and the effects.
\<close>

definition validateBuffered ::
  "Library \<Rightarrow> ValidatingProxy \<Rightarrow> Response \<Rightarrow> string \<Rightarrow> Outcome \<times> Response \<times> Event list" where
  "validateBuffered lib vp resp bodyBytes =
     (case router vp of
        None \<Rightarrow> (Panic, resp, [])
      | Some FindRoute \<Rightarrow>
          (case FindRoute (Request resp) of
             Inl err \<Rightarrow>
               if isUndocumentedEndpoint (unicodeLower lib) (Some err)
               then (ReturnNil, resp,
                     RouteLookup (Request resp) #
                     logRecord (logger vp) LevelWarn ''Undocumented endpoint''
                       [\<lparr>Key = ''method'', Value = StringValue (Method (Request resp))\<rparr>,
                        \<lparr>Key = ''path'', Value = StringValue (Path (Request resp))\<rparr>])
               else (ReturnErr (''route finding error: '' @ err), resp,
                     RouteLookup (Request resp) #
                     logRecord (logger vp) LevelError ''Error finding route''
                       [\<lparr>Key = ''error'', Value = AnyValue err\<rparr>,
                        \<lparr>Key = ''method'', Value = StringValue (Method (Request resp))\<rparr>,
                        \<lparr>Key = ''path'', Value = StringValue (Path (Request resp))\<rparr>])
           | Inr (route, pathParams) \<Rightarrow>
               let input = validationInput resp route pathParams bodyBytes
               in (case ValidateResponse lib input of
                     None \<Rightarrow>
                       (ReturnNil, resp, [RouteLookup (Request resp), Validation input])
                   | Some err \<Rightarrow>
                       (ReturnNil,
                        if mode vp = ModeStrict then replaceResponseWithError resp err else resp,
                        [RouteLookup (Request resp), Validation input] @
                        logRecord (logger vp) LevelError ''Response validation failed''
                          [\<lparr>Key = ''error'', Value = AnyValue err\<rparr>,
                           \<lparr>Key = ''method'', Value = StringValue (Method (Request resp))\<rparr>,
                           \<lparr>Key = ''path'', Value = StringValue (Path (Request resp))\<rparr>,
                           \<lparr>Key = ''status'', Value = Int64Value (StatusCode resp)\<rparr>]))))"

text \<open>
  The declared-size gate: the size that makes the hook skip the response before it reads
  the body, if the \<^verbatim>\<open>Content-Length\<close> header is there, parses and exceeds \<open>maxSize\<close>.
\<close>

definition declaredTooLarge :: "string \<Rightarrow> int option" where
  "declaredTooLarge contentLength =
     (if contentLength \<noteq> [] then
        (case ParseInt contentLength of
           Inr n \<Rightarrow> if n > maxSize then Some n else None
         | Inl err \<Rightarrow> None)
      else None)"

definition tooLarge :: "ColoredHandler \<Rightarrow> int \<Rightarrow> Event list" where
  "tooLarge h n =
     logRecord h LevelWarn ''Response too large, skipping validation''
       [\<lparr>Key = ''size'', Value = Int64Value n\<rparr>]"

text \<open>
  The hook. \<open>Body resp\<close> is the upstream body stream when the hook is entered; the result
  gives the value returned, the response as the hook leaves it, the effects, and the
  upstream stream afterwards (\<open>stream\<close>).
\<close>

definition validateResponse :: "Library \<Rightarrow> ValidatingProxy \<Rightarrow> Response \<Rightarrow> HookResult" where
  "validateResponse lib vp resp =
     (let contentType = Get (Header resp) ''Content-Type''
      in if \<not> Contains contentType ''application/json''
         then \<lparr>ret = ReturnNil, response = resp, events = [], stream = Body resp\<rparr>
         else
           (case declaredTooLarge (Get (Header resp) ''Content-Length'') of
              Some n \<Rightarrow>
                \<lparr>ret = ReturnNil, response = resp, events = tooLarge (logger vp) n,
                 stream = Body resp\<rparr>
            | None \<Rightarrow>
                (case ReadAllLimit (Body resp) (maxSize + 1) of
                   (bodyBytes, err, rest) \<Rightarrow>
                     (case err of
                        Some e \<Rightarrow>
                          \<lparr>ret = ReturnErr e, response = resp\<lparr>Body := rest\<rparr>, events = [],
                           stream = rest\<rparr>
                      | None \<Rightarrow>
                          if int (length bodyBytes) > maxSize
                          then \<lparr>ret = ReturnNil, response = resp\<lparr>Body := rest\<rparr>,
                                events = tooLarge (logger vp) (int (length bodyBytes)),
                                stream = rest\<rparr>
                          else
                            (case validateBuffered lib vp
                                    (resp\<lparr>Body := NewReader bodyBytes\<rparr>) bodyBytes of
                               (r, resp', evs) \<Rightarrow>
                                 \<lparr>ret = r, response = resp', events = evs, stream = rest\<rparr>)))))"

subsection \<open>Delivery to the client\<close>

text \<open>
  What the client is sent: a status, the headers, and the bytes still pending in the
  body handed over, up to its fault if it has one.
\<close>

record ClientResponse =
  clientStatus :: int
  clientHeader :: Header
  clientBody :: Reader

text \<open>
  \<^verbatim>\<open>httputil.ReverseProxy\<close>, once the upstream response \<open>res\<close> has arrived, with
  \<^verbatim>\<open>ModifyResponse\<close> set to the hook and no \<^verbatim>\<open>ErrorHandler\<close>, as \<^verbatim>\<open>NewValidatingProxy\<close>
  builds it: if the hook returns nil the response as the hook left it is copied to the
  client; if the hook returns an error the response is dropped and the default error
  handler answers 502 (Bad Gateway) with no body; if the hook panics the connection is
  closed and the client is sent nothing.
\<close>

definition serveResponse :: "Library \<Rightarrow> ValidatingProxy \<Rightarrow> Response \<Rightarrow> ClientResponse option" where
  "serveResponse lib vp res =
     (let r = validateResponse lib vp res
      in case ret r of
           ReturnNil \<Rightarrow>
             Some \<lparr>clientStatus = StatusCode (response r), clientHeader = Header (response r),
                   clientBody = Body (response r)\<rparr>
         | ReturnErr err \<Rightarrow>
             Some \<lparr>clientStatus = 502, clientHeader = Map.empty, clientBody = NewReader []\<rparr>
         | Panic \<Rightarrow> None)"

subsection \<open>Handlers on the heap\<close>

text \<open>
  A handler is used through a pointer, and its bound attributes are a slice whose
  backing array may be shared. The heap holds the backing arrays, the handlers and the
  output writers; an address is an index, and allocation appends, so that a new address
  is never one in use.
\<close>

record Writer =
  written :: string
  broken :: "error option"

record Heap =
  arrays :: "Attr list list"
  handlers :: "ColoredHandler list"
  writers :: "Writer list"

definition validSlice :: "Heap \<Rightarrow> Slice \<Rightarrow> bool" where
  "validSlice hp s =
     (len s = 0 \<or>
      (array s < length (arrays hp) \<and> offset s + len s \<le> length (arrays hp ! array s)))"

definition readSlice :: "Heap \<Rightarrow> Slice \<Rightarrow> Attr list" where
  "readSlice hp s =
     (if len s = 0 then [] else take (len s) (drop (offset s) (arrays hp ! array s)))"

definition zeroAttr :: Attr where
  "zeroAttr = \<lparr>Key = [], Value = NilValue\<rparr>"

text \<open>\<^verbatim>\<open>make([]slog.Attr, n)\<close>\<close>

definition makeAttrs :: "Heap \<Rightarrow> nat \<Rightarrow> Heap \<times> Slice" where
  "makeAttrs hp n =
     (hp\<lparr>arrays := arrays hp @ [replicate n zeroAttr]\<rparr>,
      \<lparr>array = length (arrays hp), offset = 0, len = n\<rparr>)"

text \<open>\<^verbatim>\<open>copy(dst, src)\<close> writes the first \<open>min (len dst) (len src)\<close> elements of \<open>src\<close> into
  the array of \<open>dst\<close>.\<close>

definition copySlice :: "Heap \<Rightarrow> Slice \<Rightarrow> Slice \<Rightarrow> Heap" where
  "copySlice hp dst src =
     (let n = min (len dst) (len src)
      in if n = 0 then hp
         else
           let a = arrays hp ! array dst
           in hp\<lparr>arrays := (arrays hp)
                  [array dst := take (offset dst) a @ take n (readSlice hp src) @
                                drop (offset dst + n) a]\<rparr>)"

text \<open>\<^verbatim>\<open>s[k:]\<close>, for \<open>k \<le> len s\<close>.\<close>

definition sliceFrom :: "Slice \<Rightarrow> nat \<Rightarrow> Slice" where
  "sliceFrom s k = s\<lparr>offset := offset s + k, len := len s - k\<rparr>"

text \<open>
  \<^verbatim>\<open>WithAttrs\<close> on the handler at address \<open>h\<close>: the heap afterwards and the address of the
  handler returned; \<open>None\<close> is the panic of a call through a pointer that is not valid.
\<close>

definition WithAttrs :: "Heap \<Rightarrow> nat \<Rightarrow> Slice \<Rightarrow> (Heap \<times> nat) option" where
  "WithAttrs hp h as =
     (if h < length (handlers hp) then
        (let hdl = handlers hp ! h
         in case makeAttrs hp (len (attrs hdl) + len as) of
              (hp1, newAttrs) \<Rightarrow>
                let hp2 = copySlice hp1 newAttrs (attrs hdl);
                    hp3 = copySlice hp2 (sliceFrom newAttrs (len (attrs hdl))) as
                in Some (hp3\<lparr>handlers := handlers hp3 @
                               [\<lparr>out = out hdl, level = level hdl, attrs = newAttrs\<rparr>]\<rparr>,
                         length (handlers hp3)))
      else None)"

definition WithGroup :: "Heap \<Rightarrow> nat \<Rightarrow> string \<Rightarrow> Heap \<times> nat" where
  "WithGroup hp h name = (hp, h)"

definition esc :: char where "esc = CHR 0x1B"

definition colorReset :: string where "colorReset = esc # ''[0m''"
definition colorRed :: string where "colorRed = esc # ''[31m''"
definition colorYellow :: string where "colorYellow = esc # ''[33m''"
definition colorGreen :: string where "colorGreen = esc # ''[32m''"
definition colorBlue :: string where "colorBlue = esc # ''[34m''"
definition colorGray :: string where "colorGray = esc # ''[90m''"

text \<open>\<^verbatim>\<open>Level.String()\<close>: the name of the level at or below, and the signed distance from it.\<close>

definition levelName :: "string \<Rightarrow> int \<Rightarrow> string" where
  "levelName base val =
     (if val = 0 then base
      else if val > 0 then base @ ''+'' @ Itoa val
      else base @ Itoa val)"

definition LevelString :: "Level \<Rightarrow> string" where
  "LevelString l =
     (if l < LevelInfo then levelName ''DEBUG'' (l - LevelDebug)
      else if l < LevelWarn then levelName ''INFO'' (l - LevelInfo)
      else if l < LevelError then levelName ''WARN'' (l - LevelWarn)
      else levelName ''ERROR'' (l - LevelError))"

text \<open>\<^verbatim>\<open>fmt.Sprintf("%v", attr.Value)\<close>\<close>

fun formatValue :: "Value \<Rightarrow> string" where
  "formatValue (StringValue s) = s"
| "formatValue (Int64Value i) = Itoa i"
| "formatValue (AnyValue err) = err"
| "formatValue NilValue = ''<nil>''"

definition formatAttr :: "Attr \<Rightarrow> string" where
  "formatAttr attr = '' '' @ Key attr @ ''='' @ formatValue (Value attr)"

text \<open>
  The line that \<^verbatim>\<open>Handle\<close> builds for a record; \<open>now\<close> is the clock reading
  \<^verbatim>\<open>time.Now().Format("15:04:05")\<close>.
\<close>

definition formatLine :: "Heap \<Rightarrow> ColoredHandler \<Rightarrow> string \<Rightarrow> Record \<Rightarrow> string" where
  "formatLine hp hdl now record =
     (let color =
            (if Level record = LevelError then colorRed
             else if Level record = LevelWarn then colorYellow
             else if Level record = LevelInfo then colorGreen
             else if Level record = LevelDebug then colorBlue
             else colorReset)
      in colorGray @ now @ '' '' @ color @ LevelString (Level record) @ colorReset @
         '' '' @ Message record @
         concat (map formatAttr (Attrs record)) @
         concat (map formatAttr (readSlice hp (attrs hdl))) @
         [CHR 0x0A])"

text \<open>\<^verbatim>\<open>Write\<close> on the writer at address \<open>w\<close>: a broken writer takes nothing and returns its
  error.\<close>

definition Write :: "Heap \<Rightarrow> nat \<Rightarrow> string \<Rightarrow> Heap \<times> error option" where
  "Write hp w bs =
     (case broken (writers hp ! w) of
        None \<Rightarrow>
          (hp\<lparr>writers := (writers hp)[w := (writers hp ! w)\<lparr>written := written (writers hp ! w) @ bs\<rparr>]\<rparr>,
           None)
      | Some err \<Rightarrow> (hp, Some err))"

text \<open>
  \<^verbatim>\<open>Handle\<close> on the handler at address \<open>h\<close>: the heap afterwards and the error returned;
  \<open>None\<close> is the panic of a call through a pointer or a writer that is not valid.
\<close>

definition Handle :: "Heap \<Rightarrow> nat \<Rightarrow> string \<Rightarrow> Record \<Rightarrow> (Heap \<times> error option) option" where
  "Handle hp h now record =
     (if h < length (handlers hp) \<and> out (handlers hp ! h) < length (writers hp)
      then Some (Write hp (out (handlers hp ! h)) (formatLine hp (handlers hp ! h) now record))
      else None)"

text \<open>A run of calls of \<^verbatim>\<open>Handle\<close> on the handler at \<open>h\<close>, one for each clock reading and
  record: the heap afterwards, or \<open>None\<close> if a call panics.\<close>

fun handleAll :: "Heap \<Rightarrow> nat \<Rightarrow> (string \<times> Record) list \<Rightarrow> Heap option" where
  "handleAll hp h [] = Some hp"
| "handleAll hp h ((now, record) # rest) =
     (case Handle hp h now record of
        None \<Rightarrow> None
      | Some (hp', err) \<Rightarrow> handleAll hp' h rest)"

subsection \<open>Example values\<close>

text \<open>The handler that \<^verbatim>\<open>NewValidatingProxy\<close> builds: standard error, level Info, no
  attributes.\<close>

definition stderrHandler :: ColoredHandler where
  "stderrHandler = \<lparr>out = 0, level = LevelInfo, attrs = \<lparr>array = 0, offset = 0, len = 0\<rparr>\<rparr>"

definition usersRequest :: Request where
  "usersRequest = \<lparr>Method = ''GET'', Path = ''/users'', RawQuery = []\<rparr>"

definition jsonResponse :: "string \<Rightarrow> Response" where
  "jsonResponse body =
     \<lparr>StatusCode = 200, Header = [''Content-Type'' \<mapsto> [''application/json'']],
      Body = NewReader body, Request = usersRequest\<rparr>"

definition htmlResponse :: Response where
  "htmlResponse =
     \<lparr>StatusCode = 200, Header = [''Content-Type'' \<mapsto> [''text/html'']],
      Body = NewReader ''<p>hello</p>'', Request = usersRequest\<rparr>"

definition noOperation :: "Request \<Rightarrow> error + Route \<times> PathParams" where
  "noOperation req = Inl ''no matching operation was found''"

definition methodNotAllowed :: "Request \<Rightarrow> error + Route \<times> PathParams" where
  "methodNotAllowed req = Inl ''method not allowed''"

definition listUsers :: "Request \<Rightarrow> error + Route \<times> PathParams" where
  "listUsers req = Inr (''listUsers'', Map.empty)"

definition rejecting :: "ResponseValidationInput \<Rightarrow> error option" where
  "rejecting input = Some ''field 'id' required''"

definition exampleLibrary :: Library where
  "exampleLibrary = \<lparr>unicodeLower = (\<lambda>s. s), ValidateResponse = rejecting\<rparr>"

definition exampleProxy :: "Mode \<Rightarrow> (Request \<Rightarrow> error + Route \<times> PathParams) \<Rightarrow> ValidatingProxy" where
  "exampleProxy m r = \<lparr>mode = m, logger = stderrHandler, router = Some r\<rparr>"

definition cachedResponse :: Response where
  "cachedResponse =
     \<lparr>StatusCode = 200,
      Header = [''Content-Type'' \<mapsto> [''application/json; charset=utf-8''],
                ''Content-Encoding'' \<mapsto> [''gzip''],
                ''Etag'' \<mapsto> [''123456''],
                ''X-Request-Id'' \<mapsto> [''42'']],
      Body = NewReader ''{}'', Request = usersRequest\<rparr>"

definition sizedResponse :: "string \<Rightarrow> string \<Rightarrow> Response" where
  "sizedResponse contentLength body =
     \<lparr>StatusCode = 200,
      Header = [''Content-Type'' \<mapsto> [''application/json''],
                ''Content-Length'' \<mapsto> [contentLength]],
      Body = NewReader body, Request = usersRequest\<rparr>"

definition oversizedBody :: string where
  "oversizedBody = replicate 10485761 (CHR ''a'') @ ''tail''"

definition limitBody :: string where
  "limitBody = replicate 10485760 (CHR ''a'')"

definition serviceAttr :: Attr where
  "serviceAttr = \<lparr>Key = ''service'', Value = StringValue ''specgate''\<rparr>"

definition requestAttr :: Attr where
  "requestAttr = \<lparr>Key = ''request'', Value = Int64Value 7\<rparr>"

definition exampleHeap :: Heap where
  "exampleHeap =
     \<lparr>arrays = [[serviceAttr], [requestAttr]],
      handlers = [\<lparr>out = 0, level = LevelInfo, attrs = \<lparr>array = 0, offset = 0, len = 1\<rparr>\<rparr>],
      writers = [\<lparr>written = [], broken = None\<rparr>]\<rparr>"

definition requestAttrs :: Slice where
  "requestAttrs = \<lparr>array = 1, offset = 0, len = 1\<rparr>"

definition startedRecord :: Record where
  "startedRecord = \<lparr>Level = LevelWarn, Message = ''Undocumented endpoint'', Attrs = []\<rparr>"

definition derivedHeap :: Heap where
  "derivedHeap =
     \<lparr>arrays = [[serviceAttr], [requestAttr], [serviceAttr, requestAttr]],
      handlers = [\<lparr>out = 0, level = LevelInfo, attrs = \<lparr>array = 0, offset = 0, len = 1\<rparr>\<rparr>,
                  \<lparr>out = 0, level = LevelInfo, attrs = \<lparr>array = 2, offset = 0, len = 2\<rparr>\<rparr>],
      writers = [\<lparr>written = [], broken = None\<rparr>]\<rparr>"

text \<open>The mode \<^verbatim>\<open>STRICT\<close> written with U+0130 for its \<^verbatim>\<open>I\<close>, and a table that leaves the
  remaining code points as they are (the examples have none).\<close>

definition dottedStrict :: string where
  "dottedStrict = ''STR'' @ dottedI @ ''CT''"

definition sameBytes :: "string \<Rightarrow> string" where
  "sameBytes p = p"

section \<open>Properties\<close>

subsection \<open>Strings and header keys\<close>

lemma canonical_keys:
  "CanonicalMIMEHeaderKey ''Content-Type'' = ''Content-Type''"
  "CanonicalMIMEHeaderKey ''Content-Length'' = ''Content-Length''"
  "CanonicalMIMEHeaderKey ''Content-Encoding'' = ''Content-Encoding''"
  "CanonicalMIMEHeaderKey ''Transfer-Encoding'' = ''Transfer-Encoding''"
  "CanonicalMIMEHeaderKey ''ETag'' = ''Etag''"
  "CanonicalMIMEHeaderKey ''Last-Modified'' = ''Last-Modified''"
  by (simp_all add: CanonicalMIMEHeaderKey_def validHeaderFieldByte_def upperASCII_def
        lowerASCII_def Let_def)

lemma HasPrefix_iff: "HasPrefix s p \<longleftrightarrow> (\<exists>post. s = p @ post)"
  by (induction s p rule: HasPrefix.induct) auto

lemma Contains_iff: "Contains s sub \<longleftrightarrow> (\<exists>pre post. s = pre @ sub @ post)"
proof (induction s)
  case Nil
  then show ?case by auto
next
  case (Cons c cs)
  have "(\<exists>pre post. c # cs = pre @ sub @ post) \<longleftrightarrow>
        (\<exists>post. c # cs = sub @ post) \<or> (\<exists>pre post. cs = pre @ sub @ post)"
  proof
    assume "\<exists>pre post. c # cs = pre @ sub @ post"
    then obtain pre post where eq: "c # cs = pre @ sub @ post" by blast
    show "(\<exists>post. c # cs = sub @ post) \<or> (\<exists>pre post. cs = pre @ sub @ post)"
    proof (cases pre)
      case Nil
      with eq show ?thesis by auto
    next
      case (Cons a pre')
      with eq have "cs = pre' @ sub @ post" by simp
      then show ?thesis by blast
    qed
  next
    assume "(\<exists>post. c # cs = sub @ post) \<or> (\<exists>pre post. cs = pre @ sub @ post)"
    then show "\<exists>pre post. c # cs = pre @ sub @ post"
    proof
      assume "\<exists>post. c # cs = sub @ post"
      then obtain post where "c # cs = [] @ sub @ post" by auto
      then show ?thesis by blast
    next
      assume "\<exists>pre post. cs = pre @ sub @ post"
      then obtain pre post where "c # cs = (c # pre) @ sub @ post" by auto
      then show ?thesis by blast
    qed
  qed
  with Cons show ?case by (simp add: HasPrefix_iff)
qed

subsection \<open>The stages of the hook\<close>

lemma Reader_rebuffer: "fault b = None \<Longrightarrow> NewReader (pending b) = b"
  by (simp add: NewReader_def)

lemma hook_not_json:
  assumes "\<not> Contains (Get (Header resp) ''Content-Type'') ''application/json''"
  shows "validateResponse lib vp resp =
           \<lparr>ret = ReturnNil, response = resp, events = [], stream = Body resp\<rparr>"
  using assms by (simp add: validateResponse_def)

lemma hook_declared:
  assumes "Contains (Get (Header resp) ''Content-Type'') ''application/json''"
    and "declaredTooLarge (Get (Header resp) ''Content-Length'') = Some n"
  shows "validateResponse lib vp resp =
           \<lparr>ret = ReturnNil, response = resp, events = tooLarge (logger vp) n, stream = Body resp\<rparr>"
  using assms by (simp add: validateResponse_def)

lemma hook_read_fault:
  assumes "Contains (Get (Header resp) ''Content-Type'') ''application/json''"
    and "declaredTooLarge (Get (Header resp) ''Content-Length'') = None"
    and "int (length (pending (Body resp))) \<le> maxSize"
    and "fault (Body resp) = Some e"
  shows "validateResponse lib vp resp =
           \<lparr>ret = ReturnErr e, response = resp\<lparr>Body := (Body resp)\<lparr>pending := []\<rparr>\<rparr>, events = [],
            stream = (Body resp)\<lparr>pending := []\<rparr>\<rparr>"
  using assms by (simp add: validateResponse_def ReadAllLimit_def)

lemma hook_stream_oversize:
  assumes "Contains (Get (Header resp) ''Content-Type'') ''application/json''"
    and "declaredTooLarge (Get (Header resp) ''Content-Length'') = None"
    and "int (length (pending (Body resp))) > maxSize"
  shows "validateResponse lib vp resp =
           \<lparr>ret = ReturnNil,
            response = resp\<lparr>Body := (Body resp)\<lparr>pending := drop (nat (maxSize + 1)) (pending (Body resp))\<rparr>\<rparr>,
            events = tooLarge (logger vp) (maxSize + 1),
            stream = (Body resp)\<lparr>pending := drop (nat (maxSize + 1)) (pending (Body resp))\<rparr>\<rparr>"
proof -
  have pos: "0 \<le> maxSize" by (simp add: maxSize_def)
  have "ReadAllLimit (Body resp) (maxSize + 1) =
          (take (nat (maxSize + 1)) (pending (Body resp)), None,
           (Body resp)\<lparr>pending := drop (nat (maxSize + 1)) (pending (Body resp))\<rparr>)"
    using assms(3) by (simp add: ReadAllLimit_def)
  moreover have "int (length (take (nat (maxSize + 1)) (pending (Body resp)))) = maxSize + 1"
    using assms(3) pos by simp
  ultimately show ?thesis
    using assms(1,2) by (simp add: validateResponse_def)
qed

lemma hook_buffered:
  assumes "Contains (Get (Header resp) ''Content-Type'') ''application/json''"
    and "declaredTooLarge (Get (Header resp) ''Content-Length'') = None"
    and "int (length (pending (Body resp))) \<le> maxSize"
    and "fault (Body resp) = None"
  shows "validateResponse lib vp resp =
           (case validateBuffered lib vp resp (pending (Body resp)) of
              (r, resp', evs) \<Rightarrow>
                \<lparr>ret = r, response = resp', events = evs,
                 stream = (Body resp)\<lparr>pending := []\<rparr>\<rparr>)"
proof -
  have "ReadAllLimit (Body resp) (maxSize + 1) =
          (pending (Body resp), None, (Body resp)\<lparr>pending := []\<rparr>)"
    using assms(3,4) by (simp add: ReadAllLimit_def)
  moreover have "resp\<lparr>Body := NewReader (pending (Body resp))\<rparr> = resp"
    using assms(4) by (simp add: Reader_rebuffer)
  ultimately show ?thesis
    using assms(1,2,3) by (simp add: validateResponse_def)
qed

lemma tooLarge_only_logs: "e \<in> set (tooLarge h n) \<Longrightarrow> \<exists>r. e = Logged r"
  by (auto simp: tooLarge_def logRecord_def)

lemma buffered_undocumented:
  assumes "router vp = Some fr" and "fr (Request resp) = Inl msg"
    and "isUndocumentedEndpoint (unicodeLower lib) (Some msg)"
  shows "validateBuffered lib vp resp b =
           (ReturnNil, resp,
            RouteLookup (Request resp) #
            logRecord (logger vp) LevelWarn ''Undocumented endpoint''
              [\<lparr>Key = ''method'', Value = StringValue (Method (Request resp))\<rparr>,
               \<lparr>Key = ''path'', Value = StringValue (Path (Request resp))\<rparr>])"
  using assms by (simp add: validateBuffered_def)

lemma buffered_resolver_error:
  assumes "router vp = Some fr" and "fr (Request resp) = Inl msg"
    and "\<not> isUndocumentedEndpoint (unicodeLower lib) (Some msg)"
  shows "validateBuffered lib vp resp b =
           (ReturnErr (''route finding error: '' @ msg), resp,
            RouteLookup (Request resp) #
            logRecord (logger vp) LevelError ''Error finding route''
              [\<lparr>Key = ''error'', Value = AnyValue msg\<rparr>,
               \<lparr>Key = ''method'', Value = StringValue (Method (Request resp))\<rparr>,
               \<lparr>Key = ''path'', Value = StringValue (Path (Request resp))\<rparr>])"
  using assms by (simp add: validateBuffered_def)

lemma buffered_passed:
  assumes "router vp = Some fr" and "fr (Request resp) = Inr (route, pp)"
    and "ValidateResponse lib (validationInput resp route pp b) = None"
  shows "validateBuffered lib vp resp b =
           (ReturnNil, resp,
            [RouteLookup (Request resp), Validation (validationInput resp route pp b)])"
  using assms by (simp add: validateBuffered_def validationInput_def)

lemma buffered_failed:
  assumes "router vp = Some fr" and "fr (Request resp) = Inr (route, pp)"
    and "ValidateResponse lib (validationInput resp route pp b) = Some d"
  shows "validateBuffered lib vp resp b =
           (ReturnNil,
            if mode vp = ModeStrict then replaceResponseWithError resp d else resp,
            [RouteLookup (Request resp), Validation (validationInput resp route pp b)] @
            logRecord (logger vp) LevelError ''Response validation failed''
              [\<lparr>Key = ''error'', Value = AnyValue d\<rparr>,
               \<lparr>Key = ''method'', Value = StringValue (Method (Request resp))\<rparr>,
               \<lparr>Key = ''path'', Value = StringValue (Path (Request resp))\<rparr>,
               \<lparr>Key = ''status'', Value = Int64Value (StatusCode resp)\<rparr>])"
  using assms by (simp add: validateBuffered_def validationInput_def)

lemma buffered_lookup:
  assumes "RouteLookup q \<in> set (snd (snd (validateBuffered lib vp resp b)))"
  shows "q = Request resp \<and> (\<exists>fr. router vp = Some fr)"
  using assms
  by (auto simp: validateBuffered_def logRecord_def Let_def
           split: option.splits sum.splits if_splits prod.splits)

lemma buffered_validation:
  assumes "Validation input \<in> set (snd (snd (validateBuffered lib vp resp b)))"
  shows "\<exists>fr route pp. router vp = Some fr \<and> fr (Request resp) = Inr (route, pp) \<and>
           input = validationInput resp route pp b"
  using assms
  by (auto simp: validateBuffered_def logRecord_def Let_def validationInput_def
           split: option.splits sum.splits if_splits prod.splits)

lemma hook_reaches_buffered:
  assumes "e \<in> set (events (validateResponse lib vp resp))"
    and "\<And>r. e \<noteq> Logged r"
  shows "Contains (Get (Header resp) ''Content-Type'') ''application/json'' \<and>
         declaredTooLarge (Get (Header resp) ''Content-Length'') = None \<and>
         int (length (pending (Body resp))) \<le> maxSize \<and>
         fault (Body resp) = None \<and>
         e \<in> set (snd (snd (validateBuffered lib vp resp (pending (Body resp)))))"
proof -
  have json: "Contains (Get (Header resp) ''Content-Type'') ''application/json''"
    using assms(1) hook_not_json [of resp lib vp] by (cases "Contains (Get (Header resp) ''Content-Type'') ''application/json''") auto
  have decl: "declaredTooLarge (Get (Header resp) ''Content-Length'') = None"
  proof (cases "declaredTooLarge (Get (Header resp) ''Content-Length'')")
    case None then show ?thesis .
  next
    case (Some n)
    then have "e \<in> set (tooLarge (logger vp) n)"
      using assms(1) hook_declared [OF json Some, of lib vp] by simp
    then show ?thesis using tooLarge_only_logs assms(2) by blast
  qed
  have small: "int (length (pending (Body resp))) \<le> maxSize"
  proof (rule ccontr)
    assume "\<not> ?thesis"
    then have "int (length (pending (Body resp))) > maxSize" by simp
    then have "e \<in> set (tooLarge (logger vp) (maxSize + 1))"
      using assms(1) hook_stream_oversize [OF json decl, of lib vp] by simp
    then show False using tooLarge_only_logs assms(2) by blast
  qed
  have nofault: "fault (Body resp) = None"
  proof (cases "fault (Body resp)")
    case None then show ?thesis .
  next
    case (Some err)
    then show ?thesis
      using assms(1) hook_read_fault [OF json decl small Some, of lib vp] by simp
  qed
  have "e \<in> set (snd (snd (validateBuffered lib vp resp (pending (Body resp)))))"
    using assms(1) hook_buffered [OF json decl small nofault, of lib vp]
    by (simp split: prod.splits)
  with json decl small nofault show ?thesis by simp
qed

lemma lookup_reached:
  assumes "RouteLookup q \<in> set (events (validateResponse lib vp resp))"
  shows "Contains (Get (Header resp) ''Content-Type'') ''application/json'' \<and>
         declaredTooLarge (Get (Header resp) ''Content-Length'') = None \<and>
         int (length (pending (Body resp))) \<le> maxSize \<and>
         fault (Body resp) = None"
  using hook_reaches_buffered [OF assms] by simp

lemma validation_reached:
  assumes "Validation input \<in> set (events (validateResponse lib vp resp))"
  shows "Contains (Get (Header resp) ''Content-Type'') ''application/json'' \<and>
         declaredTooLarge (Get (Header resp) ''Content-Length'') = None \<and>
         int (length (pending (Body resp))) \<le> maxSize \<and>
         fault (Body resp) = None \<and>
         (\<exists>fr route pp. router vp = Some fr \<and> fr (Request resp) = Inr (route, pp) \<and>
            input = validationInput resp route pp (pending (Body resp)))"
  using hook_reaches_buffered [OF assms] buffered_validation [of input lib vp resp "pending (Body resp)"]
  by simp

lemma strict_failure_result:
  assumes "Validation input \<in> set (events (validateResponse lib vp resp))"
    and "ValidateResponse lib input = Some d"
    and "mode vp = ModeStrict"
  shows "ret (validateResponse lib vp resp) = ReturnNil \<and>
         response (validateResponse lib vp resp) = replaceResponseWithError resp d"
proof -
  from validation_reached [OF assms(1)] obtain fr route pp where
    gates: "Contains (Get (Header resp) ''Content-Type'') ''application/json''"
      "declaredTooLarge (Get (Header resp) ''Content-Length'') = None"
      "int (length (pending (Body resp))) \<le> maxSize"
      "fault (Body resp) = None"
    and rt: "router vp = Some fr" "fr (Request resp) = Inr (route, pp)"
    and inp: "input = validationInput resp route pp (pending (Body resp))"
    by blast
  have "ValidateResponse lib (validationInput resp route pp (pending (Body resp))) = Some d"
    using assms(2) inp by simp
  from buffered_failed [OF rt this] show ?thesis
    using assms(3) by (simp add: hook_buffered [OF gates])
qed

lemma buffered_events:
  assumes "router vp = Some fr"
  shows "RouteLookup (Request resp) \<in> set (snd (snd (validateBuffered lib vp resp b)))"
    and "fr (Request resp) = Inr (route, pp) \<Longrightarrow>
           Validation (validationInput resp route pp b) \<in>
             set (snd (snd (validateBuffered lib vp resp b)))"
    and "Logged rec \<in> set (snd (snd (validateBuffered lib vp resp b))) \<Longrightarrow>
           Message rec \<noteq> ''Response too large, skipping validation''"
  using assms
  by (auto simp: validateBuffered_def logRecord_def Let_def
           split: option.splits sum.splits if_splits prod.splits)

lemma declaredTooLarge_iff:
  "declaredTooLarge cl = Some n \<longleftrightarrow> ParseInt cl = Inr n \<and> n > maxSize"
  by (auto simp: declaredTooLarge_def ParseInt_def split: sum.splits if_splits)

lemma declaredTooLarge_None:
  "declaredTooLarge cl = None \<longleftrightarrow> (\<forall>n. ParseInt cl = Inr n \<longrightarrow> n \<le> maxSize)"
  by (cases "declaredTooLarge cl") (auto simp: declaredTooLarge_iff declaredTooLarge_def ParseInt_def split: sum.splits if_splits)

lemma read_bound:
  "length (pending (Body resp)) \<le>
     length (pending (stream (validateResponse lib vp resp))) + nat (maxSize + 1)"
proof (cases "Contains (Get (Header resp) ''Content-Type'') ''application/json''")
  case False
  then show ?thesis by (simp add: hook_not_json)
next
  case json: True
  show ?thesis
  proof (cases "declaredTooLarge (Get (Header resp) ''Content-Length'')")
    case (Some n)
    then show ?thesis by (simp add: hook_declared [OF json])
  next
    case None
    show ?thesis
    proof (cases "int (length (pending (Body resp))) > maxSize")
      case True
      then show ?thesis by (simp add: hook_stream_oversize [OF json None])
    next
      case False
      then have small: "int (length (pending (Body resp))) \<le> maxSize" by simp
      then have len: "length (pending (Body resp)) \<le> nat (maxSize + 1)" by linarith
      show ?thesis
      proof (cases "fault (Body resp)")
        case None': None
        show ?thesis
          using len by (simp add: hook_buffered [OF json None small None'] split: prod.splits)
      next
        case (Some e)
        show ?thesis
          using len by (simp add: hook_read_fault [OF json None small Some])
      qed
    qed
  qed
qed

subsection \<open>The rewrite and the examples, evaluated\<close>

lemma appendString_details: "appendString ''details'' = quote # ''details'' @ [quote]"
  by (simp add: appendString_def isASCII_def htmlSafe_def quote_def backslash_def)

lemma appendString_error: "appendString ''error'' = quote # ''error'' @ [quote]"
  by (simp add: appendString_def isASCII_def htmlSafe_def quote_def backslash_def)

lemma appendString_label:
  "appendString ''Response validation failed'' = quote # ''Response validation failed'' @ [quote]"
  by (simp add: appendString_def isASCII_def htmlSafe_def quote_def backslash_def)

lemma Marshal_error_details:
  "Marshal [(''error'', ''Response validation failed''), (''details'', d)] =
     ''{'' @ quote # ''details'' @ [quote] @ '':'' @ appendString d @ '','' @
     quote # ''error'' @ [quote] @ '':'' @ quote # ''Response validation failed'' @ [quote] @ ''}''"
  by (simp add: Marshal_def appendString_details appendString_error appendString_label)


lemma rewrite_fields:
  "StatusCode (replaceResponseWithError resp d) = 500"
  "Body (replaceResponseWithError resp d) =
     NewReader (Marshal [(''error'', ''Response validation failed''), (''details'', d)])"
  "Request (replaceResponseWithError resp d) = Request resp"
  "Header (replaceResponseWithError resp d) =
     (Header resp)
       (''Content-Type'' \<mapsto> [''application/json''],
        ''Content-Length'' \<mapsto>
           [Itoa (int (length (Marshal [(''error'', ''Response validation failed''), (''details'', d)])))],
        ''Content-Encoding'' := None, ''Transfer-Encoding'' := None,
        ''Etag'' := None, ''Last-Modified'' := None)"
  by (simp_all add: replaceResponseWithError_def Let_def Set_def Del_def canonical_keys)

lemmas example_defs =
  exampleLibrary_def exampleProxy_def jsonResponse_def usersRequest_def stderrHandler_def
  noOperation_def methodNotAllowed_def listUsers_def rejecting_def

lemmas hook_defs =
  validateResponse_def serveResponse_def validateBuffered_def validationInput_def
  declaredTooLarge_def tooLarge_def ReadAllLimit_def NewReader_def maxSize_def
  logRecord_def Enabled_def LevelWarn_def LevelError_def LevelInfo_def
  Get_def canonical_keys
  isUndocumentedEndpoint_def undocumentedPatterns_def ToLower_def isASCII_def lowerASCII_def

lemmas rewrite_defs =
  replaceResponseWithError_def Set_def Del_def Marshal_error_details appendString_def
  htmlSafe_def quote_def backslash_def Itoa_def digits.simps

lemma strict_example:
  \<open>validateResponse exampleLibrary (exampleProxy ModeStrict listUsers) cachedResponse =
     \<lparr>ret = ReturnNil,
      response =
        \<lparr>StatusCode = 500,
         Header = [''Content-Type'' \<mapsto> [''application/json''],
                   ''Content-Length'' \<mapsto> [''70''],
                   ''X-Request-Id'' \<mapsto> [''42'']],
         Body = NewReader ''{"details":"field 'id' required","error":"Response validation failed"}'',
         Request = usersRequest\<rparr>,
      events =
        [RouteLookup usersRequest,
         Validation (validationInput cachedResponse ''listUsers'' Map.empty ''{}''),
         Logged \<lparr>Level = LevelError, Message = ''Response validation failed'',
                 Attrs = [\<lparr>Key = ''error'', Value = AnyValue ''field 'id' required''\<rparr>,
                          \<lparr>Key = ''method'', Value = StringValue ''GET''\<rparr>,
                          \<lparr>Key = ''path'', Value = StringValue ''/users''\<rparr>,
                          \<lparr>Key = ''status'', Value = Int64Value 200\<rparr>]\<rparr>],
      stream = NewReader []\<rparr>\<close>
  apply (simp add: example_defs hook_defs cachedResponse_def rewrite_defs ModeStrict_def Let_def)
  apply (rule ext)
  apply simp
  done

lemma strict_example_validated:
  "Validation (validationInput cachedResponse ''listUsers'' Map.empty ''{}'') \<in>
     set (events (validateResponse exampleLibrary (exampleProxy ModeStrict listUsers)
                    cachedResponse)) \<and>
   ValidateResponse exampleLibrary
     (validationInput cachedResponse ''listUsers'' Map.empty ''{}'') = Some ''field 'id' required'' \<and>
   mode (exampleProxy ModeStrict listUsers) = ModeStrict"
  by (simp add: strict_example) (simp add: example_defs)

lemmas size_defs =
  sizedResponse_def ParseInt_def ParseUint_def digitVal_def limitBody_def oversizedBody_def

subsection \<open>Responses that are not JSON\<close>

text \<open>
  Claim C8. A response whose \<^verbatim>\<open>Content-Type\<close> header does not contain
  \<^verbatim>\<open>application/json\<close> leaves the hook at once: nothing is validated or logged, the body
  stream is not read, and the client is sent the status, headers and body of the
  upstream response, whatever the mode of the proxy.
\<close>

theorem non_json_passthrough:
  assumes "\<not> Contains (Get (Header resp) ''Content-Type'') ''application/json''"
  shows "validateResponse lib vp resp =
           \<lparr>ret = ReturnNil, response = resp, events = [], stream = Body resp\<rparr> \<and>
         serveResponse lib vp resp =
           Some \<lparr>clientStatus = StatusCode resp, clientHeader = Header resp,
                 clientBody = Body resp\<rparr>"
  using assms by (simp add: validateResponse_def serveResponse_def)

theorem non_json_passthrough_witness:
  "\<not> Contains (Get (Header htmlResponse) ''Content-Type'') ''application/json'' \<and>
   events (validateResponse exampleLibrary (exampleProxy ModeStrict listUsers) htmlResponse) = [] \<and>
   serveResponse exampleLibrary (exampleProxy ModeStrict listUsers) htmlResponse =
     Some \<lparr>clientStatus = 200, clientHeader = [''Content-Type'' \<mapsto> [''text/html'']],
           clientBody = NewReader ''<p>hello</p>''\<rparr>"
proof -
  have h: "\<not> Contains (Get (Header htmlResponse) ''Content-Type'') ''application/json''"
    by (simp add: htmlResponse_def Get_def canonical_keys)
  show ?thesis
    using h non_json_passthrough [OF h, of exampleLibrary "exampleProxy ModeStrict listUsers"]
    by (simp add: htmlResponse_def)
qed

subsection \<open>Resolver failures\<close>

text \<open>
  Claim C7. A resolver failure is classified as an undocumented endpoint exactly when
  its message, lower-cased, contains one of the six phrases
  \<^verbatim>\<open>no matching operation\<close>, \<^verbatim>\<open>path not found\<close>, \<^verbatim>\<open>no route found\<close>,
  \<^verbatim>\<open>operation not found\<close>, \<^verbatim>\<open>no match found\<close>, \<^verbatim>\<open>unknown path\<close>. When the hook looks the
  route up and the lookup fails with such a message, the hook returns nil, leaves the
  response as it was, logs one record at level Warn and none at level Error, and the
  client is sent the upstream response.
\<close>

theorem undocumented_endpoint_warned:
  "(isUndocumentedEndpoint ul (Some msg) \<longleftrightarrow>
      (\<exists>pre post. ToLower ul msg = pre @ ''no matching operation'' @ post) \<or>
      (\<exists>pre post. ToLower ul msg = pre @ ''path not found'' @ post) \<or>
      (\<exists>pre post. ToLower ul msg = pre @ ''no route found'' @ post) \<or>
      (\<exists>pre post. ToLower ul msg = pre @ ''operation not found'' @ post) \<or>
      (\<exists>pre post. ToLower ul msg = pre @ ''no match found'' @ post) \<or>
      (\<exists>pre post. ToLower ul msg = pre @ ''unknown path'' @ post)) \<and>
   (RouteLookup q \<in> set (events (validateResponse lib vp resp)) \<and>
    router vp = Some fr \<and> fr (Request resp) = Inl err \<and>
    isUndocumentedEndpoint (unicodeLower lib) (Some err) \<and>
    Enabled (logger vp) LevelWarn \<longrightarrow>
      validateResponse lib vp resp =
        \<lparr>ret = ReturnNil, response = resp,
         events =
           [RouteLookup (Request resp),
            Logged \<lparr>Level = LevelWarn, Message = ''Undocumented endpoint'',
                    Attrs = [\<lparr>Key = ''method'', Value = StringValue (Method (Request resp))\<rparr>,
                             \<lparr>Key = ''path'', Value = StringValue (Path (Request resp))\<rparr>]\<rparr>],
         stream = (Body resp)\<lparr>pending := []\<rparr>\<rparr> \<and>
      serveResponse lib vp resp =
        Some \<lparr>clientStatus = StatusCode resp, clientHeader = Header resp,
              clientBody = Body resp\<rparr>)"
proof (intro conjI impI)
  show "isUndocumentedEndpoint ul (Some msg) \<longleftrightarrow>
      (\<exists>pre post. ToLower ul msg = pre @ ''no matching operation'' @ post) \<or>
      (\<exists>pre post. ToLower ul msg = pre @ ''path not found'' @ post) \<or>
      (\<exists>pre post. ToLower ul msg = pre @ ''no route found'' @ post) \<or>
      (\<exists>pre post. ToLower ul msg = pre @ ''operation not found'' @ post) \<or>
      (\<exists>pre post. ToLower ul msg = pre @ ''no match found'' @ post) \<or>
      (\<exists>pre post. ToLower ul msg = pre @ ''unknown path'' @ post)"
    by (simp add: isUndocumentedEndpoint_def undocumentedPatterns_def Contains_iff
          del: Contains.simps)
next
  assume a: "RouteLookup q \<in> set (events (validateResponse lib vp resp)) \<and>
    router vp = Some fr \<and> fr (Request resp) = Inl err \<and>
    isUndocumentedEndpoint (unicodeLower lib) (Some err) \<and>
    Enabled (logger vp) LevelWarn"
  then have gates: "Contains (Get (Header resp) ''Content-Type'') ''application/json''"
      "declaredTooLarge (Get (Header resp) ''Content-Length'') = None"
      "int (length (pending (Body resp))) \<le> maxSize"
      "fault (Body resp) = None"
    using lookup_reached [of q lib vp resp] by simp_all
  have b: "validateBuffered lib vp resp (pending (Body resp)) =
           (ReturnNil, resp,
            RouteLookup (Request resp) #
            logRecord (logger vp) LevelWarn ''Undocumented endpoint''
              [\<lparr>Key = ''method'', Value = StringValue (Method (Request resp))\<rparr>,
               \<lparr>Key = ''path'', Value = StringValue (Path (Request resp))\<rparr>])"
    using a buffered_undocumented [of vp fr resp err lib] by simp
  show r: "validateResponse lib vp resp =
        \<lparr>ret = ReturnNil, response = resp,
         events =
           [RouteLookup (Request resp),
            Logged \<lparr>Level = LevelWarn, Message = ''Undocumented endpoint'',
                    Attrs = [\<lparr>Key = ''method'', Value = StringValue (Method (Request resp))\<rparr>,
                             \<lparr>Key = ''path'', Value = StringValue (Path (Request resp))\<rparr>]\<rparr>],
         stream = (Body resp)\<lparr>pending := []\<rparr>\<rparr>"
    using a by (simp add: hook_buffered [OF gates] b logRecord_def)
  show "serveResponse lib vp resp =
        Some \<lparr>clientStatus = StatusCode resp, clientHeader = Header resp,
              clientBody = Body resp\<rparr>"
    by (simp add: serveResponse_def r)
qed

theorem undocumented_endpoint_warned_witness:
  "RouteLookup usersRequest \<in>
     set (events (validateResponse exampleLibrary (exampleProxy ModeWarn noOperation)
                    (jsonResponse ''{}''))) \<and>
   router (exampleProxy ModeWarn noOperation) = Some noOperation \<and>
   noOperation (Request (jsonResponse ''{}'')) = Inl ''no matching operation was found'' \<and>
   isUndocumentedEndpoint (unicodeLower exampleLibrary) (Some ''no matching operation was found'') \<and>
   Enabled (logger (exampleProxy ModeWarn noOperation)) LevelWarn \<and>
   serveResponse exampleLibrary (exampleProxy ModeWarn noOperation) (jsonResponse ''{}'') =
     Some \<lparr>clientStatus = 200, clientHeader = [''Content-Type'' \<mapsto> [''application/json'']],
           clientBody = NewReader ''{}''\<rparr>"
proof -
  have h: "RouteLookup usersRequest \<in>
       set (events (validateResponse exampleLibrary (exampleProxy ModeWarn noOperation)
                      (jsonResponse ''{}''))) \<and>
     router (exampleProxy ModeWarn noOperation) = Some noOperation \<and>
     noOperation (Request (jsonResponse ''{}'')) = Inl ''no matching operation was found'' \<and>
     isUndocumentedEndpoint (unicodeLower exampleLibrary) (Some ''no matching operation was found'') \<and>
     Enabled (logger (exampleProxy ModeWarn noOperation)) LevelWarn"
    by (simp add: example_defs hook_defs)
  have "serveResponse exampleLibrary (exampleProxy ModeWarn noOperation) (jsonResponse ''{}'') =
     Some \<lparr>clientStatus = StatusCode (jsonResponse ''{}''),
           clientHeader = Header (jsonResponse ''{}''),
           clientBody = Body (jsonResponse ''{}'')\<rparr>"
    using h undocumented_endpoint_warned
      [where q = usersRequest and lib = exampleLibrary
         and vp = "exampleProxy ModeWarn noOperation" and resp = "jsonResponse ''{}''"
         and fr = noOperation and err = "''no matching operation was found''"]
    by blast
  then show ?thesis using h by (simp add: jsonResponse_def)
qed

text \<open>
  Claim C2, as the specification states it: when the lookup fails with a message that
  matches none of the phrases, the original response still reaches the client. It does
  not: for a router that answers \<^verbatim>\<open>method not allowed\<close> the hook returns an error, and
  the reverse proxy answers 502 in place of the upstream response.
\<close>

theorem resolver_error_fail_open_counterexample:
  "RouteLookup usersRequest \<in>
     set (events (validateResponse exampleLibrary (exampleProxy ModeWarn methodNotAllowed)
                    (jsonResponse ''{}''))) \<and>
   router (exampleProxy ModeWarn methodNotAllowed) = Some methodNotAllowed \<and>
   methodNotAllowed (Request (jsonResponse ''{}'')) = Inl ''method not allowed'' \<and>
   \<not> isUndocumentedEndpoint (unicodeLower exampleLibrary) (Some ''method not allowed'') \<and>
   serveResponse exampleLibrary (exampleProxy ModeWarn methodNotAllowed) (jsonResponse ''{}'') \<noteq>
     Some \<lparr>clientStatus = StatusCode (jsonResponse ''{}''),
           clientHeader = Header (jsonResponse ''{}''),
           clientBody = Body (jsonResponse ''{}'')\<rparr> \<and>
   serveResponse exampleLibrary (exampleProxy ModeWarn methodNotAllowed) (jsonResponse ''{}'') =
     Some \<lparr>clientStatus = 502, clientHeader = Map.empty, clientBody = NewReader []\<rparr>"
  by (simp add: example_defs hook_defs)

text \<open>
  Claim C2, amended. When the hook looks the route up and the lookup fails with a message
  that matches none of the phrases, the hook logs one record at level Error and returns
  the error \<^verbatim>\<open>route finding error: \<close> followed by the message; it leaves the status,
  headers and buffered body of the response as they were, and the reverse proxy, given
  the error, sends the client 502 with no body instead of the upstream response.
\<close>

theorem resolver_error_aborts:
  assumes "RouteLookup q \<in> set (events (validateResponse lib vp resp))"
    and "router vp = Some fr"
    and "fr (Request resp) = Inl err"
    and "\<not> isUndocumentedEndpoint (unicodeLower lib) (Some err)"
    and "Enabled (logger vp) LevelError"
  shows "validateResponse lib vp resp =
           \<lparr>ret = ReturnErr (''route finding error: '' @ err), response = resp,
            events =
              [RouteLookup (Request resp),
               Logged \<lparr>Level = LevelError, Message = ''Error finding route'',
                       Attrs = [\<lparr>Key = ''error'', Value = AnyValue err\<rparr>,
                                \<lparr>Key = ''method'', Value = StringValue (Method (Request resp))\<rparr>,
                                \<lparr>Key = ''path'', Value = StringValue (Path (Request resp))\<rparr>]\<rparr>],
            stream = (Body resp)\<lparr>pending := []\<rparr>\<rparr> \<and>
         serveResponse lib vp resp =
           Some \<lparr>clientStatus = 502, clientHeader = Map.empty, clientBody = NewReader []\<rparr>"
proof -
  have gates: "Contains (Get (Header resp) ''Content-Type'') ''application/json''"
      "declaredTooLarge (Get (Header resp) ''Content-Length'') = None"
      "int (length (pending (Body resp))) \<le> maxSize"
      "fault (Body resp) = None"
    using lookup_reached [OF assms(1)] by simp_all
  have r: "validateResponse lib vp resp =
           \<lparr>ret = ReturnErr (''route finding error: '' @ err), response = resp,
            events =
              [RouteLookup (Request resp),
               Logged \<lparr>Level = LevelError, Message = ''Error finding route'',
                       Attrs = [\<lparr>Key = ''error'', Value = AnyValue err\<rparr>,
                                \<lparr>Key = ''method'', Value = StringValue (Method (Request resp))\<rparr>,
                                \<lparr>Key = ''path'', Value = StringValue (Path (Request resp))\<rparr>]\<rparr>],
            stream = (Body resp)\<lparr>pending := []\<rparr>\<rparr>"
    using assms(5)
    by (simp add: hook_buffered [OF gates]
          buffered_resolver_error [OF assms(2) assms(3) assms(4)] logRecord_def)
  then show ?thesis by (simp add: serveResponse_def)
qed

theorem resolver_error_aborts_witness:
  "RouteLookup usersRequest \<in>
     set (events (validateResponse exampleLibrary (exampleProxy ModeWarn methodNotAllowed)
                    (jsonResponse ''{}''))) \<and>
   router (exampleProxy ModeWarn methodNotAllowed) = Some methodNotAllowed \<and>
   methodNotAllowed (Request (jsonResponse ''{}'')) = Inl ''method not allowed'' \<and>
   \<not> isUndocumentedEndpoint (unicodeLower exampleLibrary) (Some ''method not allowed'') \<and>
   Enabled (logger (exampleProxy ModeWarn methodNotAllowed)) LevelError \<and>
   ret (validateResponse exampleLibrary (exampleProxy ModeWarn methodNotAllowed)
          (jsonResponse ''{}'')) = ReturnErr ''route finding error: method not allowed'' \<and>
   response (validateResponse exampleLibrary (exampleProxy ModeWarn methodNotAllowed)
          (jsonResponse ''{}'')) = jsonResponse ''{}'' \<and>
   clientStatus (the (serveResponse exampleLibrary (exampleProxy ModeWarn methodNotAllowed)
          (jsonResponse ''{}''))) = 502"
proof -
  have h1: "RouteLookup usersRequest \<in>
     set (events (validateResponse exampleLibrary (exampleProxy ModeWarn methodNotAllowed)
                    (jsonResponse ''{}'')))"
    by (simp add: example_defs hook_defs)
  have h2: "router (exampleProxy ModeWarn methodNotAllowed) = Some methodNotAllowed"
    by (simp add: exampleProxy_def)
  have h3: "methodNotAllowed (Request (jsonResponse ''{}'')) = Inl ''method not allowed''"
    by (simp add: methodNotAllowed_def)
  have h4: "\<not> isUndocumentedEndpoint (unicodeLower exampleLibrary) (Some ''method not allowed'')"
    by (simp add: example_defs hook_defs)
  have h5: "Enabled (logger (exampleProxy ModeWarn methodNotAllowed)) LevelError"
    by (simp add: example_defs hook_defs)
  show ?thesis
    using h1 h2 h3 h4 h5 resolver_error_aborts [OF h1 h2 h3 h4 h5]
    by simp
qed

subsection \<open>Validation failures in strict mode\<close>

text \<open>
  Claim C4. When the validator rejects the response and the mode is strict, the hook
  sets the status to 500, \<^verbatim>\<open>Content-Type\<close> to \<^verbatim>\<open>application/json\<close> and
  \<^verbatim>\<open>Content-Length\<close> to the length in bytes of the new body, in decimal; it removes
  \<^verbatim>\<open>Content-Encoding\<close>, \<^verbatim>\<open>Transfer-Encoding\<close>, \<^verbatim>\<open>ETag\<close> and \<^verbatim>\<open>Last-Modified\<close>; every other
  header is as it was.
\<close>

theorem strict_rewrite_headers:
  assumes "Validation input \<in> set (events (validateResponse lib vp resp))"
    and "ValidateResponse lib input = Some d"
    and "mode vp = ModeStrict"
    and "validateResponse lib vp resp = r"
  shows "StatusCode (response r) = 500 \<and>
         Get (Header (response r)) ''Content-Type'' = ''application/json'' \<and>
         Get (Header (response r)) ''Content-Length'' =
           Itoa (int (length (pending (Body (response r))))) \<and>
         Get (Header (response r)) ''Content-Encoding'' = [] \<and>
         Get (Header (response r)) ''Transfer-Encoding'' = [] \<and>
         Get (Header (response r)) ''ETag'' = [] \<and>
         Get (Header (response r)) ''Last-Modified'' = [] \<and>
         Header (response r) ''Content-Type'' = Some [''application/json''] \<and>
         Header (response r) ''Content-Length'' =
           Some [Itoa (int (length (pending (Body (response r)))))] \<and>
         Header (response r) ''Content-Encoding'' = None \<and>
         Header (response r) ''Transfer-Encoding'' = None \<and>
         Header (response r) ''Etag'' = None \<and>
         Header (response r) ''Last-Modified'' = None \<and>
         (\<forall>k. k \<notin> {''Content-Type'', ''Content-Length'', ''Content-Encoding'',
                    ''Transfer-Encoding'', ''Etag'', ''Last-Modified''} \<longrightarrow>
              Header (response r) k = Header resp k)"
proof -
  have "response r = replaceResponseWithError resp d"
    using strict_failure_result [OF assms(1-3)] assms(4) by simp
  then show ?thesis
    by (simp add: rewrite_fields Get_def canonical_keys NewReader_def)
qed

theorem strict_rewrite_headers_witness:
  "Validation (validationInput cachedResponse ''listUsers'' Map.empty ''{}'') \<in>
     set (events (validateResponse exampleLibrary (exampleProxy ModeStrict listUsers)
                    cachedResponse)) \<and>
   ValidateResponse exampleLibrary
     (validationInput cachedResponse ''listUsers'' Map.empty ''{}'') = Some ''field 'id' required'' \<and>
   mode (exampleProxy ModeStrict listUsers) = ModeStrict \<and>
   StatusCode (response (validateResponse exampleLibrary
                           (exampleProxy ModeStrict listUsers) cachedResponse)) = 500 \<and>
   Header (response (validateResponse exampleLibrary
                       (exampleProxy ModeStrict listUsers) cachedResponse)) =
     [''Content-Type'' \<mapsto> [''application/json''], ''Content-Length'' \<mapsto> [''70''],
      ''X-Request-Id'' \<mapsto> [''42'']] \<and>
   Get (Header (response (validateResponse exampleLibrary
                       (exampleProxy ModeStrict listUsers) cachedResponse))) ''ETag'' = []"
proof -
  note h = strict_example_validated
  from strict_rewrite_headers [OF h [THEN conjunct1] h [THEN conjunct2, THEN conjunct1]
      h [THEN conjunct2, THEN conjunct2] refl]
  have "StatusCode (response (validateResponse exampleLibrary
                           (exampleProxy ModeStrict listUsers) cachedResponse)) = 500 \<and>
        Get (Header (response (validateResponse exampleLibrary
                       (exampleProxy ModeStrict listUsers) cachedResponse))) ''ETag'' = []"
    by blast
  then show ?thesis using h by (simp add: strict_example)
qed








subsection \<open>The size gate\<close>

subsubsection \<open>Decimal numerals\<close>

lemma digitVal_digit:
  assumes "k < 10"
  shows "digitVal (''0123456789'' ! k) = Some k"
    and "''0123456789'' ! k \<noteq> CHR ''+''" and "''0123456789'' ! k \<noteq> CHR ''-''"
proof -
  from assms have "k = 0 \<or> k = 1 \<or> k = 2 \<or> k = 3 \<or> k = 4 \<or> k = 5 \<or> k = 6 \<or>
      k = 7 \<or> k = 8 \<or> k = 9"
    by arith
  then have "digitVal (''0123456789'' ! k) = Some k \<and> ''0123456789'' ! k \<noteq> CHR ''+'' \<and>
      ''0123456789'' ! k \<noteq> CHR ''-''"
    by (elim disjE) (simp_all add: digitVal_def)
  then show "digitVal (''0123456789'' ! k) = Some k"
    and "''0123456789'' ! k \<noteq> CHR ''+''" and "''0123456789'' ! k \<noteq> CHR ''-''"
    by simp_all
qed

lemma parseUintLoop_snoc:
  "parseUintLoop acc (ds @ [c]) =
     (case parseUintLoop acc ds of
        Inl e \<Rightarrow> Inl e
      | Inr v \<Rightarrow>
          (case digitVal c of
             None \<Rightarrow> Inl ErrSyntax
           | Some d \<Rightarrow> if v * 10 + d \<ge> 2 ^ 64 then Inl ErrRange else Inr (v * 10 + d)))"
  by (induction ds arbitrary: acc) (auto split: option.splits)

lemma parseUintLoop_digits:
  "parseUintLoop 0 (digits n) = (if n < 2 ^ 64 then Inr n else Inl ErrRange)"
proof (induction n rule: digits.induct)
  case (1 n)
  show ?case
  proof (cases "n < 10")
    case True
    then have "digits n = [''0123456789'' ! n]" by (simp add: digits.simps)
    then show ?thesis using True digitVal_digit(1) [OF True] by simp
  next
    case False
    have m: "n mod 10 < 10" by simp
    have d: "digits n = digits (n div 10) @ [''0123456789'' ! (n mod 10)]"
      using False by (subst digits.simps) simp
    have eq: "n div 10 * 10 + n mod 10 = n" by simp
    show ?thesis
      unfolding d parseUintLoop_snoc "1.IH" [OF False] digitVal_digit(1) [OF m]
      using eq by (auto simp del: div_mult_mod_eq)
  qed
qed

lemma digits_head:
  "\<exists>c cs. digits n = c # cs \<and> c \<noteq> CHR ''+'' \<and> c \<noteq> CHR ''-''"
proof (induction n rule: digits.induct)
  case (1 n)
  show ?case
  proof (cases "n < 10")
    case True
    then show ?thesis using digitVal_digit(2,3) [OF True] by (simp add: digits.simps)
  next
    case False
    from "1.IH" [OF False] obtain c cs where "digits (n div 10) = c # cs"
      "c \<noteq> CHR ''+''" "c \<noteq> CHR ''-''" by blast
    then show ?thesis using False by (subst digits.simps) simp
  qed
qed

lemma ParseInt_Itoa:
  assumes "0 \<le> n"
  shows "ParseInt (Itoa n) = (if n < 2 ^ 63 then Inr n else Inl ErrRange)"
proof -
  obtain c cs where hd: "digits (nat n) = c # cs" "c \<noteq> CHR ''+''" "c \<noteq> CHR ''-''"
    using digits_head by blast
  have it: "Itoa n = c # cs" using assms hd(1) by (simp add: Itoa_def)
  have pu: "ParseUint (c # cs) = (if nat n < 2 ^ 64 then Inr (nat n) else Inl ErrRange)"
    using parseUintLoop_digits [of "nat n"] hd(1) by (simp add: ParseUint_def)
  have lt: "nat n < 2 ^ 63 \<longleftrightarrow> n < 2 ^ 63" using assms by (simp add: nat_less_iff)
  show ?thesis
    unfolding it using hd(2,3) pu assms lt
    by (auto simp: ParseInt_def Let_def)
qed

lemma Itoa_examples:
  "Itoa 9223372036854775808 = ''9223372036854775808''"
  "Itoa 20971520 = ''20971520''"
  by (simp_all add: Itoa_def digits.simps)

lemma hook_reads:
  assumes "Contains (Get (Header resp) ''Content-Type'') ''application/json''"
    and "declaredTooLarge (Get (Header resp) ''Content-Length'') = None"
  shows "stream (validateResponse lib vp resp) =
           (Body resp)\<lparr>pending := drop (nat (maxSize + 1)) (pending (Body resp))\<rparr>"
proof (cases "int (length (pending (Body resp))) > maxSize")
  case True
  then show ?thesis by (simp add: hook_stream_oversize [OF assms])
next
  case False
  then have small: "int (length (pending (Body resp))) \<le> maxSize" by simp
  then have dr: "drop (nat (maxSize + 1)) (pending (Body resp)) = []" by simp
  show ?thesis
  proof (cases "fault (Body resp)")
    case None
    show ?thesis
      unfolding dr by (simp add: hook_buffered [OF assms small None] split: prod.splits)
  next
    case (Some e)
    show ?thesis
      unfolding dr by (simp add: hook_read_fault [OF assms small Some])
  qed
qed

text \<open>
  Claim C5, as the specification states it: every JSON response whose declared
  \<^verbatim>\<open>Content-Length\<close> exceeds \<open>maxSize\<close> is skipped without any read of the body. It is
  not so for a declared length of \<open>2 ^ 63\<close>: the header does not parse as a 64-bit integer,
  the declared-size gate does not fire, and the hook reads the body and validates it.
\<close>

theorem declared_length_beyond_int64_counterexample:
  "Contains (Get (Header (sizedResponse ''9223372036854775808'' ''{}'')) ''Content-Type'')
     ''application/json'' \<and>
   Get (Header (sizedResponse ''9223372036854775808'' ''{}'')) ''Content-Length'' =
     Itoa 9223372036854775808 \<and>
   (9223372036854775808 :: int) > maxSize \<and>
   Body (sizedResponse ''9223372036854775808'' ''{}'') = NewReader ''{}'' \<and>
   stream (validateResponse exampleLibrary (exampleProxy ModeWarn listUsers)
             (sizedResponse ''9223372036854775808'' ''{}'')) = NewReader [] \<and>
   stream (validateResponse exampleLibrary (exampleProxy ModeWarn listUsers)
             (sizedResponse ''9223372036854775808'' ''{}'')) \<noteq>
     Body (sizedResponse ''9223372036854775808'' ''{}'') \<and>
   events (validateResponse exampleLibrary (exampleProxy ModeWarn listUsers)
             (sizedResponse ''9223372036854775808'' ''{}'')) =
     [RouteLookup usersRequest,
      Validation (validationInput (sizedResponse ''9223372036854775808'' ''{}'')
                    ''listUsers'' Map.empty ''{}''),
      Logged \<lparr>Level = LevelError, Message = ''Response validation failed'',
              Attrs = [\<lparr>Key = ''error'', Value = AnyValue ''field 'id' required''\<rparr>,
                       \<lparr>Key = ''method'', Value = StringValue ''GET''\<rparr>,
                       \<lparr>Key = ''path'', Value = StringValue ''/users''\<rparr>,
                       \<lparr>Key = ''status'', Value = Int64Value 200\<rparr>]\<rparr>]"
  unfolding Itoa_examples
  by (simp add: example_defs hook_defs size_defs ModeWarn_def ModeStrict_def)

text \<open>
  Claim C5, amended. The size gate is strictly greater-than. A JSON response whose
  \<^verbatim>\<open>Content-Length\<close> parses as a 64-bit integer greater than \<open>maxSize\<close> (10 MiB), as every
  declared length above \<open>maxSize\<close> and below \<open>2 ^ 63\<close> does, is skipped and its body stream
  is not read at all; a declared length of \<open>2 ^ 63\<close> or more is not skipped for what it
  declares: the body is read and the bytes read decide. A body of exactly \<open>maxSize\<close> bytes,
  declared as such or not declared, is not skipped: the hook looks the route up and, when
  there is one, hands the whole body to the validator. Whatever the response, the hook
  takes at most \<open>maxSize + 1\<close> bytes from the stream.
\<close>

theorem size_gate_strictly_greater:
  "(Contains (Get (Header resp) ''Content-Type'') ''application/json'' \<and>
    ParseInt (Get (Header resp) ''Content-Length'') = Inr n \<and> n > maxSize \<longrightarrow>
      validateResponse lib vp resp =
        \<lparr>ret = ReturnNil, response = resp, events = tooLarge (logger vp) n,
         stream = Body resp\<rparr>) \<and>
   (Contains (Get (Header resp) ''Content-Type'') ''application/json'' \<and>
    Get (Header resp) ''Content-Length'' = Itoa n \<and> maxSize < n \<and> n < 2 ^ 63 \<longrightarrow>
      validateResponse lib vp resp =
        \<lparr>ret = ReturnNil, response = resp, events = tooLarge (logger vp) n,
         stream = Body resp\<rparr>) \<and>
   (Contains (Get (Header resp) ''Content-Type'') ''application/json'' \<and>
    Get (Header resp) ''Content-Length'' = Itoa n \<and> 2 ^ 63 \<le> n \<longrightarrow>
      stream (validateResponse lib vp resp) =
        (Body resp)\<lparr>pending := drop (nat (maxSize + 1)) (pending (Body resp))\<rparr> \<and>
      (int (length (pending (Body resp))) \<le> maxSize \<and> fault (Body resp) = None \<and>
       router vp = Some fr \<longrightarrow>
         RouteLookup (Request resp) \<in> set (events (validateResponse lib vp resp)))) \<and>
   (Contains (Get (Header resp) ''Content-Type'') ''application/json'' \<and>
    (Get (Header resp) ''Content-Length'' = [] \<or>
     ParseInt (Get (Header resp) ''Content-Length'') = Inr maxSize) \<and>
    int (length (pending (Body resp))) = maxSize \<and> fault (Body resp) = None \<and>
    router vp = Some fr \<longrightarrow>
      RouteLookup (Request resp) \<in> set (events (validateResponse lib vp resp)) \<and>
      (\<forall>route pp. fr (Request resp) = Inr (route, pp) \<longrightarrow>
         Validation (validationInput resp route pp (pending (Body resp))) \<in>
           set (events (validateResponse lib vp resp))) \<and>
      (\<forall>rec. Logged rec \<in> set (events (validateResponse lib vp resp)) \<longrightarrow>
         Message rec \<noteq> ''Response too large, skipping validation'')) \<and>
   length (pending (Body resp)) \<le>
     length (pending (stream (validateResponse lib vp resp))) + nat (maxSize + 1)"
proof -
  have skip: "validateResponse lib vp resp =
        \<lparr>ret = ReturnNil, response = resp, events = tooLarge (logger vp) n,
         stream = Body resp\<rparr>"
    if "Contains (Get (Header resp) ''Content-Type'') ''application/json''"
      and "ParseInt (Get (Header resp) ''Content-Length'') = Inr n" and "n > maxSize"
  proof -
    have "declaredTooLarge (Get (Header resp) ''Content-Length'') = Some n"
      using that by (simp add: declaredTooLarge_iff)
    with that(1) show ?thesis by (simp add: hook_declared)
  qed
  have pos: "0 \<le> maxSize" by (simp add: maxSize_def)
  have c1: "Contains (Get (Header resp) ''Content-Type'') ''application/json'' \<and>
    ParseInt (Get (Header resp) ''Content-Length'') = Inr n \<and> n > maxSize \<longrightarrow>
      validateResponse lib vp resp =
        \<lparr>ret = ReturnNil, response = resp, events = tooLarge (logger vp) n,
         stream = Body resp\<rparr>"
    using skip by blast
  have c2: "Contains (Get (Header resp) ''Content-Type'') ''application/json'' \<and>
    Get (Header resp) ''Content-Length'' = Itoa n \<and> maxSize < n \<and> n < 2 ^ 63 \<longrightarrow>
      validateResponse lib vp resp =
        \<lparr>ret = ReturnNil, response = resp, events = tooLarge (logger vp) n,
         stream = Body resp\<rparr>"
  proof
    assume a: "Contains (Get (Header resp) ''Content-Type'') ''application/json'' \<and>
      Get (Header resp) ''Content-Length'' = Itoa n \<and> maxSize < n \<and> n < 2 ^ 63"
    then have "0 \<le> n" using pos by linarith
    then have "ParseInt (Get (Header resp) ''Content-Length'') = Inr n"
      using a ParseInt_Itoa [of n] by simp
    with a show "validateResponse lib vp resp =
        \<lparr>ret = ReturnNil, response = resp, events = tooLarge (logger vp) n,
         stream = Body resp\<rparr>"
      using skip by blast
  qed
  have c3: "Contains (Get (Header resp) ''Content-Type'') ''application/json'' \<and>
    Get (Header resp) ''Content-Length'' = Itoa n \<and> 2 ^ 63 \<le> n \<longrightarrow>
      stream (validateResponse lib vp resp) =
        (Body resp)\<lparr>pending := drop (nat (maxSize + 1)) (pending (Body resp))\<rparr> \<and>
      (int (length (pending (Body resp))) \<le> maxSize \<and> fault (Body resp) = None \<and>
       router vp = Some fr \<longrightarrow>
         RouteLookup (Request resp) \<in> set (events (validateResponse lib vp resp)))"
  proof (intro impI conjI)
    assume a: "Contains (Get (Header resp) ''Content-Type'') ''application/json'' \<and>
      Get (Header resp) ''Content-Length'' = Itoa n \<and> 2 ^ 63 \<le> n"
    moreover have "(0::int) \<le> 2 ^ 63" by simp
    ultimately have "0 \<le> n" by linarith
    then have "ParseInt (Get (Header resp) ''Content-Length'') = Inl ErrRange"
      using a ParseInt_Itoa [of n] by simp
    then have decl: "declaredTooLarge (Get (Header resp) ''Content-Length'') = None"
      by (simp add: declaredTooLarge_None)
    from a have json: "Contains (Get (Header resp) ''Content-Type'') ''application/json''"
      by simp
    show "stream (validateResponse lib vp resp) =
        (Body resp)\<lparr>pending := drop (nat (maxSize + 1)) (pending (Body resp))\<rparr>"
      by (rule hook_reads [OF json decl])
    assume b: "int (length (pending (Body resp))) \<le> maxSize \<and> fault (Body resp) = None \<and>
       router vp = Some fr"
    then have ev: "events (validateResponse lib vp resp) =
              snd (snd (validateBuffered lib vp resp (pending (Body resp))))"
      by (simp add: hook_buffered [OF json decl] split: prod.splits)
    from b have rt: "router vp = Some fr" by simp
    show "RouteLookup (Request resp) \<in> set (events (validateResponse lib vp resp))"
      unfolding ev by (rule buffered_events(1) [OF rt])
  qed
  have c4: "Contains (Get (Header resp) ''Content-Type'') ''application/json'' \<and>
    (Get (Header resp) ''Content-Length'' = [] \<or>
     ParseInt (Get (Header resp) ''Content-Length'') = Inr maxSize) \<and>
    int (length (pending (Body resp))) = maxSize \<and> fault (Body resp) = None \<and>
    router vp = Some fr \<longrightarrow>
      RouteLookup (Request resp) \<in> set (events (validateResponse lib vp resp)) \<and>
      (\<forall>route pp. fr (Request resp) = Inr (route, pp) \<longrightarrow>
         Validation (validationInput resp route pp (pending (Body resp))) \<in>
           set (events (validateResponse lib vp resp))) \<and>
      (\<forall>rec. Logged rec \<in> set (events (validateResponse lib vp resp)) \<longrightarrow>
         Message rec \<noteq> ''Response too large, skipping validation'')"
  proof (intro impI conjI allI)
    assume b: "Contains (Get (Header resp) ''Content-Type'') ''application/json'' \<and>
      (Get (Header resp) ''Content-Length'' = [] \<or>
       ParseInt (Get (Header resp) ''Content-Length'') = Inr maxSize) \<and>
      int (length (pending (Body resp))) = maxSize \<and> fault (Body resp) = None \<and>
      router vp = Some fr"
    then have decl: "declaredTooLarge (Get (Header resp) ''Content-Length'') = None"
      by (auto simp: declaredTooLarge_None) (simp add: ParseInt_def)
    from b have gates: "Contains (Get (Header resp) ''Content-Type'') ''application/json''"
      "int (length (pending (Body resp))) \<le> maxSize" "fault (Body resp) = None"
      by simp_all
    have ev: "events (validateResponse lib vp resp) =
                snd (snd (validateBuffered lib vp resp (pending (Body resp))))"
      by (simp add: hook_buffered [OF gates(1) decl gates(2,3)] split: prod.splits)
    from b have rt: "router vp = Some fr" by simp
    show "RouteLookup (Request resp) \<in> set (events (validateResponse lib vp resp))"
      unfolding ev by (rule buffered_events(1) [OF rt])
    { fix route pp
      assume "fr (Request resp) = Inr (route, pp)"
      then show "Validation (validationInput resp route pp (pending (Body resp))) \<in>
             set (events (validateResponse lib vp resp))"
        unfolding ev by (rule buffered_events(2) [OF rt]) }
    { fix rec
      assume "Logged rec \<in> set (events (validateResponse lib vp resp))"
      then show "Message rec \<noteq> ''Response too large, skipping validation''"
        unfolding ev by (rule buffered_events(3) [OF rt]) }
  qed
  have c5: "length (pending (Body resp)) \<le>
     length (pending (stream (validateResponse lib vp resp))) + nat (maxSize + 1)"
    by (rule read_bound)
  from c1 c2 c3 c4 c5 show ?thesis by blast
qed

theorem size_gate_strictly_greater_witness:
  "Contains (Get (Header (sizedResponse ''20971520'' [])) ''Content-Type'') ''application/json'' \<and>
   ParseInt (Get (Header (sizedResponse ''20971520'' [])) ''Content-Length'') = Inr 20971520 \<and>
   Get (Header (sizedResponse ''20971520'' [])) ''Content-Length'' = Itoa 20971520 \<and>
   maxSize < 20971520 \<and> (20971520 :: int) < 2 ^ 63 \<and>
   validateResponse exampleLibrary (exampleProxy ModeWarn listUsers) (sizedResponse ''20971520'' []) =
     \<lparr>ret = ReturnNil, response = sizedResponse ''20971520'' [],
      events = [Logged \<lparr>Level = LevelWarn, Message = ''Response too large, skipping validation'',
                        Attrs = [\<lparr>Key = ''size'', Value = Int64Value 20971520\<rparr>]\<rparr>],
      stream = NewReader []\<rparr> \<and>
   Contains (Get (Header (sizedResponse ''9223372036854775808'' ''{}'')) ''Content-Type'')
     ''application/json'' \<and>
   Get (Header (sizedResponse ''9223372036854775808'' ''{}'')) ''Content-Length'' =
     Itoa 9223372036854775808 \<and>
   (2 ^ 63 :: int) \<le> 9223372036854775808 \<and>
   int (length (pending (Body (sizedResponse ''9223372036854775808'' ''{}'')))) \<le> maxSize \<and>
   fault (Body (sizedResponse ''9223372036854775808'' ''{}'')) = None \<and>
   RouteLookup (Request (sizedResponse ''9223372036854775808'' ''{}'')) \<in>
     set (events (validateResponse exampleLibrary (exampleProxy ModeWarn listUsers)
                    (sizedResponse ''9223372036854775808'' ''{}''))) \<and>
   Contains (Get (Header (sizedResponse ''10485760'' limitBody)) ''Content-Type'') ''application/json'' \<and>
   ParseInt (Get (Header (sizedResponse ''10485760'' limitBody)) ''Content-Length'') = Inr maxSize \<and>
   int (length (pending (Body (sizedResponse ''10485760'' limitBody)))) = maxSize \<and>
   fault (Body (sizedResponse ''10485760'' limitBody)) = None \<and>
   router (exampleProxy ModeWarn listUsers) = Some listUsers \<and>
   listUsers (Request (sizedResponse ''10485760'' limitBody)) = Inr (''listUsers'', Map.empty) \<and>
   Validation (validationInput (sizedResponse ''10485760'' limitBody) ''listUsers'' Map.empty limitBody)
     \<in> set (events (validateResponse exampleLibrary (exampleProxy ModeWarn listUsers)
                       (sizedResponse ''10485760'' limitBody)))"
proof -
  have h1: "Contains (Get (Header (sizedResponse ''20971520'' [])) ''Content-Type'') ''application/json'' \<and>
      ParseInt (Get (Header (sizedResponse ''20971520'' [])) ''Content-Length'') = Inr 20971520 \<and>
      20971520 > maxSize"
    by (simp add: size_defs Get_def canonical_keys maxSize_def)
  have g1: "Get (Header (sizedResponse ''20971520'' [])) ''Content-Length'' = Itoa 20971520"
    unfolding Itoa_examples by (simp add: sizedResponse_def Get_def canonical_keys)
  have g2: "(20971520 :: int) < 2 ^ 63" by simp
  have h2: "Contains (Get (Header (sizedResponse ''10485760'' limitBody)) ''Content-Type'') ''application/json'' \<and>
      (Get (Header (sizedResponse ''10485760'' limitBody)) ''Content-Length'' = [] \<or>
       ParseInt (Get (Header (sizedResponse ''10485760'' limitBody)) ''Content-Length'') = Inr maxSize) \<and>
      int (length (pending (Body (sizedResponse ''10485760'' limitBody)))) = maxSize \<and>
      fault (Body (sizedResponse ''10485760'' limitBody)) = None \<and>
      router (exampleProxy ModeWarn listUsers) = Some listUsers"
    by (simp add: size_defs Get_def canonical_keys maxSize_def NewReader_def exampleProxy_def)
  have h3: "listUsers (Request (sizedResponse ''10485760'' limitBody)) = Inr (''listUsers'', Map.empty)"
    by (simp add: listUsers_def)
  have k1: "Contains (Get (Header (sizedResponse ''9223372036854775808'' ''{}'')) ''Content-Type'')
      ''application/json''"
    by (simp add: sizedResponse_def Get_def canonical_keys)
  have k2: "Get (Header (sizedResponse ''9223372036854775808'' ''{}'')) ''Content-Length'' =
      Itoa 9223372036854775808"
    unfolding Itoa_examples by (simp add: sizedResponse_def Get_def canonical_keys)
  have k3: "(2 ^ 63 :: int) \<le> 9223372036854775808" by simp
  have k4: "int (length (pending (Body (sizedResponse ''9223372036854775808'' ''{}'')))) \<le> maxSize \<and>
      fault (Body (sizedResponse ''9223372036854775808'' ''{}'')) = None \<and>
      router (exampleProxy ModeWarn listUsers) = Some listUsers"
    by (simp add: sizedResponse_def NewReader_def maxSize_def exampleProxy_def)
  have c1: "validateResponse exampleLibrary (exampleProxy ModeWarn listUsers) (sizedResponse ''20971520'' []) =
        \<lparr>ret = ReturnNil, response = sizedResponse ''20971520'' [],
         events = tooLarge (logger (exampleProxy ModeWarn listUsers)) 20971520,
         stream = Body (sizedResponse ''20971520'' [])\<rparr>"
    using h1 g1 g2 size_gate_strictly_greater
      [where resp = "sizedResponse ''20971520'' []" and n = 20971520 and lib = exampleLibrary
         and vp = "exampleProxy ModeWarn listUsers"]
    by blast
  have c2: "Validation (validationInput (sizedResponse ''10485760'' limitBody) ''listUsers'' Map.empty
               (pending (Body (sizedResponse ''10485760'' limitBody))))
     \<in> set (events (validateResponse exampleLibrary (exampleProxy ModeWarn listUsers)
                       (sizedResponse ''10485760'' limitBody)))"
    using h2 h3 size_gate_strictly_greater
      [where resp = "sizedResponse ''10485760'' limitBody" and lib = exampleLibrary
         and vp = "exampleProxy ModeWarn listUsers" and fr = listUsers]
    by blast
  have c3: "RouteLookup (Request (sizedResponse ''9223372036854775808'' ''{}'')) \<in>
     set (events (validateResponse exampleLibrary (exampleProxy ModeWarn listUsers)
                    (sizedResponse ''9223372036854775808'' ''{}'')))"
    using k1 k2 k3 k4 size_gate_strictly_greater
      [where resp = "sizedResponse ''9223372036854775808'' ''{}''" and lib = exampleLibrary
         and n = 9223372036854775808
         and vp = "exampleProxy ModeWarn listUsers" and fr = listUsers]
    by blast
  have e1: "tooLarge (logger (exampleProxy ModeWarn listUsers)) 20971520 =
      [Logged \<lparr>Level = LevelWarn, Message = ''Response too large, skipping validation'',
                        Attrs = [\<lparr>Key = ''size'', Value = Int64Value 20971520\<rparr>]\<rparr>]"
    by (simp add: tooLarge_def logRecord_def Enabled_def exampleProxy_def stderrHandler_def
          LevelWarn_def LevelInfo_def)
  have e2: "Body (sizedResponse ''20971520'' []) = NewReader []"
       "pending (Body (sizedResponse ''10485760'' limitBody)) = limitBody"
    by (simp_all add: sizedResponse_def NewReader_def)
  have h2': "ParseInt (Get (Header (sizedResponse ''10485760'' limitBody)) ''Content-Length'') = Inr maxSize"
    by (simp add: size_defs Get_def canonical_keys maxSize_def)
  have c1': "validateResponse exampleLibrary (exampleProxy ModeWarn listUsers) (sizedResponse ''20971520'' []) =
     \<lparr>ret = ReturnNil, response = sizedResponse ''20971520'' [],
      events = [Logged \<lparr>Level = LevelWarn, Message = ''Response too large, skipping validation'',
                        Attrs = [\<lparr>Key = ''size'', Value = Int64Value 20971520\<rparr>]\<rparr>],
      stream = NewReader []\<rparr>"
    using c1 unfolding e1 e2 .
  have c2': "Validation (validationInput (sizedResponse ''10485760'' limitBody) ''listUsers'' Map.empty limitBody)
     \<in> set (events (validateResponse exampleLibrary (exampleProxy ModeWarn listUsers)
                       (sizedResponse ''10485760'' limitBody)))"
    using c2 unfolding e2 .
  from h1 g1 g2 c1' k1 k2 k3 k4 c3 h2 h2' h3 c2' show ?thesis by blast
qed

text \<open>
  Claim C10. When the \<^verbatim>\<open>Content-Length\<close> header of a JSON response does not parse as a
  decimal 64-bit integer, the declared-size gate lets the response through: the body is
  read, and the response is skipped for its size exactly when more than \<open>maxSize\<close> bytes
  arrive; otherwise the hook fails with the error of the stream, if the stream fails, or
  goes on to the route lookup with the whole body. The header causes no skip and no
  error of its own.
\<close>

theorem malformed_content_length_bypassed:
  assumes "Contains (Get (Header resp) ''Content-Type'') ''application/json''"
    and "ParseInt (Get (Header resp) ''Content-Length'') = Inl e"
  shows "(int (length (pending (Body resp))) > maxSize \<longrightarrow>
            validateResponse lib vp resp =
              \<lparr>ret = ReturnNil,
               response = resp\<lparr>Body := (Body resp)\<lparr>pending := drop (nat (maxSize + 1)) (pending (Body resp))\<rparr>\<rparr>,
               events = tooLarge (logger vp) (maxSize + 1),
               stream = (Body resp)\<lparr>pending := drop (nat (maxSize + 1)) (pending (Body resp))\<rparr>\<rparr>) \<and>
         (int (length (pending (Body resp))) \<le> maxSize \<and> fault (Body resp) = Some err \<longrightarrow>
            validateResponse lib vp resp =
              \<lparr>ret = ReturnErr err, response = resp\<lparr>Body := (Body resp)\<lparr>pending := []\<rparr>\<rparr>,
               events = [], stream = (Body resp)\<lparr>pending := []\<rparr>\<rparr>) \<and>
         (int (length (pending (Body resp))) \<le> maxSize \<and> fault (Body resp) = None \<longrightarrow>
            validateResponse lib vp resp =
              (case validateBuffered lib vp resp (pending (Body resp)) of
                 (r, resp', evs) \<Rightarrow>
                   \<lparr>ret = r, response = resp', events = evs,
                    stream = (Body resp)\<lparr>pending := []\<rparr>\<rparr>))"
proof -
  have decl: "declaredTooLarge (Get (Header resp) ''Content-Length'') = None"
    using assms(2) by (simp add: declaredTooLarge_None)
  show ?thesis
    using hook_stream_oversize [OF assms(1) decl, of lib vp]
      hook_read_fault [OF assms(1) decl, of err lib vp]
      hook_buffered [OF assms(1) decl, of lib vp]
    by blast
qed

theorem malformed_content_length_bypassed_witness:
  "Contains (Get (Header (sizedResponse ''10MB'' ''{}'')) ''Content-Type'')
     ''application/json'' \<and>
   ParseInt (Get (Header (sizedResponse ''10MB'' ''{}'')) ''Content-Length'') =
     Inl ErrSyntax \<and>
   int (length (pending (Body (sizedResponse ''10MB'' ''{}'')))) \<le> maxSize \<and>
   fault (Body (sizedResponse ''10MB'' ''{}'')) = None \<and>
   validateResponse exampleLibrary (exampleProxy ModeWarn noOperation)
       (sizedResponse ''10MB'' ''{}'') =
     \<lparr>ret = ReturnNil, response = sizedResponse ''10MB'' ''{}'',
      events =
        [RouteLookup usersRequest,
         Logged \<lparr>Level = LevelWarn, Message = ''Undocumented endpoint'',
                 Attrs = [\<lparr>Key = ''method'', Value = StringValue ''GET''\<rparr>,
                          \<lparr>Key = ''path'', Value = StringValue ''/users''\<rparr>]\<rparr>],
      stream = NewReader []\<rparr>"
proof -
  have h1: "Contains (Get (Header (sizedResponse ''10MB'' ''{}'')) ''Content-Type'')
     ''application/json''"
    by (simp add: size_defs Get_def canonical_keys)
  have h2: "ParseInt (Get (Header (sizedResponse ''10MB'' ''{}'')) ''Content-Length'') =
     Inl ErrSyntax"
    by (simp add: size_defs Get_def canonical_keys)
  have h3: "int (length (pending (Body (sizedResponse ''10MB'' ''{}'')))) \<le> maxSize \<and>
      fault (Body (sizedResponse ''10MB'' ''{}'')) = None"
    by (simp add: size_defs NewReader_def maxSize_def)
  have b: "validateBuffered exampleLibrary (exampleProxy ModeWarn noOperation)
             (sizedResponse ''10MB'' ''{}'') ''{}'' =
           (ReturnNil, sizedResponse ''10MB'' ''{}'',
            [RouteLookup usersRequest,
             Logged \<lparr>Level = LevelWarn, Message = ''Undocumented endpoint'',
                 Attrs = [\<lparr>Key = ''method'', Value = StringValue ''GET''\<rparr>,
                          \<lparr>Key = ''path'', Value = StringValue ''/users''\<rparr>]\<rparr>])"
    by (simp add: example_defs hook_defs sizedResponse_def)
  have p: "pending (Body (sizedResponse ''10MB'' ''{}'')) = ''{}''"
      "(Body (sizedResponse ''10MB'' ''{}''))\<lparr>pending := []\<rparr> = NewReader []"
    by (simp_all add: sizedResponse_def NewReader_def)
  from malformed_content_length_bypassed [OF h1 h2, of exampleLibrary "exampleProxy ModeWarn noOperation"] h3
  have "validateResponse exampleLibrary (exampleProxy ModeWarn noOperation)
       (sizedResponse ''10MB'' ''{}'') =
     (case validateBuffered exampleLibrary (exampleProxy ModeWarn noOperation)
             (sizedResponse ''10MB'' ''{}'')
             (pending (Body (sizedResponse ''10MB'' ''{}''))) of
        (r, resp', evs) \<Rightarrow>
          \<lparr>ret = r, response = resp', events = evs,
           stream = (Body (sizedResponse ''10MB'' ''{}''))\<lparr>pending := []\<rparr>\<rparr>)"
    by blast
  then show ?thesis using h1 h2 h3 by (simp add: p b)
qed

text \<open>
  Claim C1, at a response that declares no length and whose body has \<open>maxSize + 5\<close>
  bytes: the hook reads \<open>maxSize + 1\<close> bytes to find the body too large, logs the
  size at level Warn and returns nil without putting the bytes back, so that the client
  is sent only the four bytes left in the stream, not the upstream body.
\<close>

theorem oversized_stream_body_truncated:
  "Get (Header (jsonResponse oversizedBody)) ''Content-Length'' = [] \<and>
   length (pending (Body (jsonResponse oversizedBody))) = 10485765 \<and>
   validateResponse exampleLibrary (exampleProxy ModeWarn listUsers) (jsonResponse oversizedBody) =
     \<lparr>ret = ReturnNil,
      response = (jsonResponse oversizedBody)\<lparr>Body := NewReader ''tail''\<rparr>,
      events = [Logged \<lparr>Level = LevelWarn, Message = ''Response too large, skipping validation'',
                        Attrs = [\<lparr>Key = ''size'', Value = Int64Value 10485761\<rparr>]\<rparr>],
      stream = NewReader ''tail''\<rparr> \<and>
   serveResponse exampleLibrary (exampleProxy ModeWarn listUsers) (jsonResponse oversizedBody) =
     Some \<lparr>clientStatus = 200, clientHeader = [''Content-Type'' \<mapsto> [''application/json'']],
           clientBody = NewReader ''tail''\<rparr>"
  by (simp add: example_defs hook_defs oversizedBody_def)

subsection \<open>Mode strings\<close>

lemma lowerASCII_letters:
  "\<forall>b \<in> set ''abcdefghijklmnopqrstuvwxyz''.
     (lowerASCII a = b \<longleftrightarrow> a = b \<or> a = upperASCII b)"
  by (simp add: lowerASCII_def upperASCII_def)

lemma lowerASCII_eq_iff:
  "lowerLetter b \<Longrightarrow> lowerASCII a = b \<longleftrightarrow> a = b \<or> a = upperASCII b"
  unfolding lowerLetter_def using lowerASCII_letters [of a] by blast

lemma letters_ASCII:
  "\<forall>b \<in> set ''abcdefghijklmnopqrstuvwxyz''. isASCII b \<and> isASCII (upperASCII b)"
  by (simp add: isASCII_def upperASCII_def)

lemma caseVariant_ASCII:
  "list_all lowerLetter t \<Longrightarrow> caseVariant s t \<Longrightarrow> list_all isASCII s"
proof (induction s t rule: caseVariant.induct)
  case (2 a as b bs)
  then show ?case using letters_ASCII by (auto simp: lowerLetter_def)
qed simp_all

lemma map_lower_caseVariant:
  "list_all lowerLetter t \<Longrightarrow> map lowerASCII s = t \<longleftrightarrow> caseVariant s t"
proof (induction s t rule: caseVariant.induct)
  case (2 a as b bs)
  then show ?case by (simp add: lowerASCII_eq_iff)
qed simp_all

lemma ToLower_caseVariant:
  assumes "list_all lowerLetter t"
  shows "caseVariant s t \<Longrightarrow> ToLower ul s = t"
    and "list_all isASCII s \<Longrightarrow> ToLower ul s = t \<Longrightarrow> caseVariant s t"
  using assms caseVariant_ASCII [of t s] map_lower_caseVariant [of t s]
  by (auto simp: ToLower_def)

lemma mode_letters:
  "list_all lowerLetter ''strict''" "list_all lowerLetter ''warn''"
  "list_all lowerLetter ''report''"
  by (simp_all add: lowerLetter_def)

lemma Decode_dottedI:
  "HasPrefix (c # cs) dottedI \<Longrightarrow> DecodeRune (c # cs) = (0x130, 2)"
  by (auto simp: dottedI_def HasPrefix_iff DecodeRune_def Let_def)

lemma Decode_kelvin:
  "HasPrefix (c # cs) kelvinSign \<Longrightarrow> DecodeRune (c # cs) = (0x212A, 3)"
  by (auto simp: kelvinSign_def HasPrefix_iff DecodeRune_def Let_def)

lemma take_HasPrefix: "take w s = p \<Longrightarrow> HasPrefix s p"
  unfolding HasPrefix_iff by (metis append_take_drop_id)

lemma example_lower:
  "MapToLower sameBytes dottedStrict = ''strict''"
  by (simp add: MapToLower.simps sameBytes_def dottedStrict_def dottedI_def isASCII_def
        lowerASCII_def DecodeRune_def RuneError_def lowerRune_def kelvinSign_def Let_def)

lemma Decode_width_pos: "DecodeRune (c # cs) = (r, w) \<Longrightarrow> 1 \<le> w"
  by (auto simp: DecodeRune_def Let_def split: if_splits)

lemma lowerLetter_ASCII:
  "lowerLetter b \<Longrightarrow> isASCII b \<and> isASCII (upperASCII b)"
  using letters_ASCII by (auto simp: lowerLetter_def)

lemma MapToLower_step_ascii:
  "isASCII c \<Longrightarrow> MapToLower other (c # cs) = lowerASCII c # MapToLower other cs"
  by (simp add: MapToLower.simps)

lemma MapToLower_step_invalid:
  "\<not> isASCII c \<Longrightarrow> DecodeRune (c # cs) = (RuneError, 1) \<Longrightarrow>
     MapToLower other (c # cs) = replacementChar @ MapToLower other cs"
  by (simp add: MapToLower.simps)

lemma MapToLower_step_rune:
  "\<not> isASCII c \<Longrightarrow> DecodeRune (c # cs) = (r, w) \<Longrightarrow> \<not> (r = RuneError \<and> w = 1) \<Longrightarrow>
     MapToLower other (c # cs) =
       lowerRune other (take w (c # cs)) @ MapToLower other (drop (w - 1) cs)"
  by (auto simp: MapToLower.simps)

lemma prefix_not_ascii:
  "HasPrefix (c # cs) dottedI \<Longrightarrow> \<not> isASCII c"
  "HasPrefix (c # cs) kelvinSign \<Longrightarrow> \<not> isASCII c"
  by (auto simp: dottedI_def kelvinSign_def isASCII_def)

lemma prefixes_differ:
  "HasPrefix (c # cs) dottedI \<Longrightarrow> \<not> HasPrefix (c # cs) kelvinSign"
  by (auto simp: dottedI_def kelvinSign_def)

lemma MapToLower_variant:
  assumes tbl: "nonASCIILower other"
  shows "list_all lowerLetter t \<Longrightarrow> MapToLower other s = t \<longleftrightarrow> unicodeVariant s t"
  using tbl
proof (induction other s arbitrary: t rule: MapToLower.induct)
  case (1 other)
  show ?case by (cases t) (auto simp: MapToLower.simps)
next
  case (2 other c cs)
  note tbl = "2.prems"(2)
  show ?case
  proof (cases "isASCII c")
    case ascii: True
    have step: "MapToLower other (c # cs) = lowerASCII c # MapToLower other cs"
      by (rule MapToLower_step_ascii [OF ascii])
    have noI: "\<not> HasPrefix (c # cs) dottedI" and noK: "\<not> HasPrefix (c # cs) kelvinSign"
      using ascii prefix_not_ascii by blast+
    show ?thesis
    proof (cases t)
      case Nil
      then show ?thesis by (simp add: step)
    next
      case (Cons b bs)
      with "2.prems"(1) have lb: "lowerLetter b" and lbs: "list_all lowerLetter bs" by simp_all
      have ih: "MapToLower other cs = bs \<longleftrightarrow> unicodeVariant cs bs"
        by (rule "2.IH"(1) [OF ascii lbs tbl])
      show ?thesis
        unfolding Cons step using noI noK ih lowerASCII_eq_iff [OF lb, of c] by simp
    qed
  next
    case nonascii: False
    obtain r w where d: "DecodeRune (c # cs) = (r, w)" by (cases "DecodeRune (c # cs)")
    show ?thesis
    proof (cases "r = RuneError \<and> w = 1")
      case invalid: True
      then have d': "DecodeRune (c # cs) = (RuneError, 1)" using d by simp
      have step: "MapToLower other (c # cs) = replacementChar @ MapToLower other cs"
        by (rule MapToLower_step_invalid [OF nonascii d'])
      have noI: "\<not> HasPrefix (c # cs) dottedI"
        using Decode_dottedI [of c cs] d' by (auto simp: RuneError_def)
      have noK: "\<not> HasPrefix (c # cs) kelvinSign"
        using Decode_kelvin [of c cs] d' by (auto simp: RuneError_def)
      show ?thesis
      proof (cases t)
        case Nil
        then show ?thesis by (simp add: step replacementChar_def)
      next
        case (Cons b bs)
        with "2.prems"(1) have lb: "lowerLetter b" by simp
        have ab: "isASCII b" "isASCII (upperASCII b)" using lowerLetter_ASCII [OF lb] by simp_all
        have nb: "c \<noteq> b" "c \<noteq> upperASCII b" using nonascii ab by auto
        have "b \<noteq> CHR 0xEF" using ab(1) by (auto simp: isASCII_def)
        then show ?thesis
          unfolding Cons step using noI noK nb by (simp add: replacementChar_def)
      qed
    next
      case rune: False
      have step: "MapToLower other (c # cs) =
          lowerRune other (take w (c # cs)) @ MapToLower other (drop (w - 1) cs)"
        by (rule MapToLower_step_rune [OF nonascii d rune])
      have wpos: "1 \<le> w" by (rule Decode_width_pos [OF d])
      then obtain w' where w': "w = Suc w'" by (cases w) simp_all
      have pc: "take w (c # cs) = c # take w' cs" by (simp add: w')
      show ?thesis
      proof (cases t)
        case Nil
        have "lowerRune other (take w (c # cs)) \<noteq> []"
          using tbl nonascii unfolding nonASCIILower_def lowerRune_def pc by auto
        then show ?thesis unfolding Nil step by simp
      next
        case (Cons b bs)
        with "2.prems"(1) have lb: "lowerLetter b" and lbs: "list_all lowerLetter bs" by simp_all
        have ab: "isASCII b" "isASCII (upperASCII b)" using lowerLetter_ASCII [OF lb] by simp_all
        have nb: "c \<noteq> b" "c \<noteq> upperASCII b" using nonascii ab by auto
        have ih: "MapToLower other (drop (w - 1) cs) = bs \<longleftrightarrow> unicodeVariant (drop (w - 1) cs) bs"
          by (rule "2.IH"(3) [OF nonascii d [symmetric] rune lbs tbl])
        consider (I) "take w (c # cs) = dottedI"
          | (K) "take w (c # cs) \<noteq> dottedI" "take w (c # cs) = kelvinSign"
          | (O) "take w (c # cs) \<noteq> dottedI" "take w (c # cs) \<noteq> kelvinSign"
          by blast
        then show ?thesis
        proof cases
          case I
          then have hp: "HasPrefix (c # cs) dottedI" by (rule take_HasPrefix)
          then have w2: "w = 2" using Decode_dottedI [OF hp] d by simp
          have noK: "\<not> HasPrefix (c # cs) kelvinSign" by (rule prefixes_differ [OF hp])
          have dr: "drop 2 (c # cs) = drop (w - 1) cs" by (simp add: w2)
          have lr: "lowerRune other (take w (c # cs)) = ''i''" by (simp add: lowerRune_def I)
          show ?thesis
            unfolding Cons step lr using hp noK nb ih dr by auto
        next
          case K
          then have hp: "HasPrefix (c # cs) kelvinSign" using take_HasPrefix by blast
          then have w3: "w = 3" using Decode_kelvin [OF hp] d by simp
          have noI: "\<not> HasPrefix (c # cs) dottedI" using prefixes_differ hp by blast
          have dr: "drop 3 (c # cs) = drop (w - 1) cs" by (simp add: w3)
          have lr: "lowerRune other (take w (c # cs)) = ''k''"
            using K by (simp add: lowerRune_def)
          show ?thesis
            unfolding Cons step lr using hp noI nb ih dr by auto
        next
          case O
          have noI: "\<not> HasPrefix (c # cs) dottedI"
          proof
            assume hp: "HasPrefix (c # cs) dottedI"
            then have "w = 2" using Decode_dottedI [OF hp] d by simp
            with hp have "take w (c # cs) = dottedI"
              by (auto simp: HasPrefix_iff dottedI_def)
            with O(1) show False by simp
          qed
          have noK: "\<not> HasPrefix (c # cs) kelvinSign"
          proof
            assume hp: "HasPrefix (c # cs) kelvinSign"
            then have "w = 3" using Decode_kelvin [OF hp] d by simp
            with hp have "take w (c # cs) = kelvinSign"
              by (auto simp: HasPrefix_iff kelvinSign_def)
            with O(2) show False by simp
          qed
          have lr: "lowerRune other (take w (c # cs)) = other (c # take w' cs)"
            using O by (simp add: lowerRune_def pc)
          have out: "other (c # take w' cs) \<noteq> [] \<and> \<not> isASCII (hd (other (c # take w' cs)))"
            using tbl nonascii unfolding nonASCIILower_def by auto
          then obtain x xs where ox: "other (c # take w' cs) = x # xs" "\<not> isASCII x"
            by (cases "other (c # take w' cs)") auto
          then have "x \<noteq> b" using ab(1) by auto
          then show ?thesis
            unfolding Cons step lr ox(1) using noI noK nb by simp
        qed
      qed
    qed
  qed
qed

lemma MapToLower_ascii:
  "list_all isASCII s \<Longrightarrow> MapToLower other s = map lowerASCII s"
  by (induction s) (simp_all add: MapToLower.simps)

lemma ToLower_MapToLower: "ToLower (MapToLower other) s = MapToLower other s"
  by (simp add: ToLower_def MapToLower_ascii)

lemma caseVariant_unicodeVariant:
  "caseVariant s t \<Longrightarrow> unicodeVariant s t"
  by (induction s t rule: caseVariant.induct) auto

lemma unicodeVariant_plain:
  "CHR ''i'' \<notin> set t \<Longrightarrow> CHR ''k'' \<notin> set t \<Longrightarrow> unicodeVariant s t \<longleftrightarrow> caseVariant s t"
proof (induction t arbitrary: s)
  case Nil
  then show ?case by (cases s) auto
next
  case (Cons b bs)
  then show ?case by (cases s) auto
qed

lemma ToLower_unicodeVariant:
  assumes "nonASCIILower other" and "list_all lowerLetter t"
  shows "ToLower (MapToLower other) s = t \<longleftrightarrow> unicodeVariant s t"
  unfolding ToLower_MapToLower by (rule MapToLower_variant [OF assms])

lemma dotted_variants:
  "unicodeVariant dottedStrict ''strict''"
  "\<not> caseVariant dottedStrict ''strict''"
  "\<not> caseVariant dottedStrict ''warn''"
  "\<not> caseVariant dottedStrict ''report''"
  by (simp_all add: dottedStrict_def dottedI_def upperASCII_def)

lemma nonASCIILower_sameBytes: "nonASCIILower sameBytes"
  by (simp add: nonASCIILower_def sameBytes_def)

text \<open>
  Claim C6, as the specification states it: every string that is not a case variant of
  \<^verbatim>\<open>strict\<close>, \<^verbatim>\<open>warn\<close> or \<^verbatim>\<open>report\<close> fails. It is not so: \<^verbatim>\<open>STRICT\<close> written with
  U+0130 for its \<^verbatim>\<open>I\<close> has bytes that are no letters of any case, and \<^verbatim>\<open>parseMode\<close>
  accepts it as \<^verbatim>\<open>strict\<close>, because the lower case of U+0130 is \<^verbatim>\<open>i\<close>.
\<close>

theorem parseMode_dotted_capital_counterexample:
  "\<not> caseVariant dottedStrict ''strict'' \<and>
   \<not> caseVariant dottedStrict ''warn'' \<and>
   \<not> caseVariant dottedStrict ''report'' \<and>
   parseMode (MapToLower sameBytes) dottedStrict = Inr ModeStrict"
  by (simp add: dotted_variants parseMode_def ToLower_MapToLower example_lower)

text \<open>
  Claim C6, amended. \<^verbatim>\<open>parseMode\<close> lower-cases its argument and succeeds, with the
  canonical lower-case mode, exactly when the result is \<^verbatim>\<open>strict\<close>, \<^verbatim>\<open>warn\<close> or \<^verbatim>\<open>report\<close>.
  Every case variant of the three names is accepted; a string of ASCII bytes that is a
  case variant of none of them, the empty string among them, is rejected with the
  invalid-mode error. With Unicode's lower-casing, a string is accepted exactly when it
  is a case variant of \<^verbatim>\<open>warn\<close> or \<^verbatim>\<open>report\<close>, or a case variant of \<^verbatim>\<open>strict\<close> in which
  U+0130 may stand for the \<^verbatim>\<open>i\<close>; every other string is rejected.
\<close>

theorem parseMode_case_insensitive:
  "parseMode ul s =
     (if ToLower ul s = ''strict'' then Inr ''strict''
      else if ToLower ul s = ''warn'' then Inr ''warn''
      else if ToLower ul s = ''report'' then Inr ''report''
      else Inl (invalidModeError s)) \<and>
   (caseVariant s ''strict'' \<longrightarrow> parseMode ul s = Inr ''strict'') \<and>
   (caseVariant s ''warn'' \<longrightarrow> parseMode ul s = Inr ''warn'') \<and>
   (caseVariant s ''report'' \<longrightarrow> parseMode ul s = Inr ''report'') \<and>
   (list_all isASCII s \<and> \<not> caseVariant s ''strict'' \<and> \<not> caseVariant s ''warn'' \<and>
    \<not> caseVariant s ''report'' \<longrightarrow> parseMode ul s = Inl (invalidModeError s)) \<and>
   parseMode ul [] = Inl (invalidModeError []) \<and>
   (nonASCIILower other \<longrightarrow>
      (unicodeVariant s ''strict'' \<longrightarrow> parseMode (MapToLower other) s = Inr ''strict'') \<and>
      (caseVariant s ''warn'' \<longrightarrow> parseMode (MapToLower other) s = Inr ''warn'') \<and>
      (caseVariant s ''report'' \<longrightarrow> parseMode (MapToLower other) s = Inr ''report'') \<and>
      (\<not> unicodeVariant s ''strict'' \<and> \<not> caseVariant s ''warn'' \<and>
       \<not> caseVariant s ''report'' \<longrightarrow>
         parseMode (MapToLower other) s = Inl (invalidModeError s)))"
proof -
  have eq: "parseMode f s =
     (if ToLower f s = ''strict'' then Inr ''strict''
      else if ToLower f s = ''warn'' then Inr ''warn''
      else if ToLower f s = ''report'' then Inr ''report''
      else Inl (invalidModeError s))" for f
    by (simp add: parseMode_def Let_def ModeStrict_def ModeWarn_def ModeReport_def)
  have empty: "parseMode ul [] = Inl (invalidModeError [])"
    by (simp add: parseMode_def ToLower_def)
  have a1: "caseVariant s ''strict'' \<longrightarrow> parseMode ul s = Inr ''strict''"
    using ToLower_caseVariant(1) [OF mode_letters(1), of s ul] by (simp add: eq)
  have a2: "caseVariant s ''warn'' \<longrightarrow> parseMode ul s = Inr ''warn''"
    using ToLower_caseVariant(1) [OF mode_letters(2), of s ul] by (simp add: eq)
  have a3: "caseVariant s ''report'' \<longrightarrow> parseMode ul s = Inr ''report''"
    using ToLower_caseVariant(1) [OF mode_letters(3), of s ul] by (simp add: eq)
  have a4: "list_all isASCII s \<and> \<not> caseVariant s ''strict'' \<and> \<not> caseVariant s ''warn'' \<and>
      \<not> caseVariant s ''report'' \<longrightarrow> parseMode ul s = Inl (invalidModeError s)"
  proof
    assume a: "list_all isASCII s \<and> \<not> caseVariant s ''strict'' \<and> \<not> caseVariant s ''warn'' \<and>
      \<not> caseVariant s ''report''"
    then have "ToLower ul s \<noteq> ''strict''" "ToLower ul s \<noteq> ''warn''" "ToLower ul s \<noteq> ''report''"
      using ToLower_caseVariant(2) [OF mode_letters(1), of s ul]
        ToLower_caseVariant(2) [OF mode_letters(2), of s ul]
        ToLower_caseVariant(2) [OF mode_letters(3), of s ul]
      by blast+
    then show "parseMode ul s = Inl (invalidModeError s)" by (simp add: eq)
  qed
  have u: "nonASCIILower other \<longrightarrow>
      (unicodeVariant s ''strict'' \<longrightarrow> parseMode (MapToLower other) s = Inr ''strict'') \<and>
      (caseVariant s ''warn'' \<longrightarrow> parseMode (MapToLower other) s = Inr ''warn'') \<and>
      (caseVariant s ''report'' \<longrightarrow> parseMode (MapToLower other) s = Inr ''report'') \<and>
      (\<not> unicodeVariant s ''strict'' \<and> \<not> caseVariant s ''warn'' \<and>
       \<not> caseVariant s ''report'' \<longrightarrow>
         parseMode (MapToLower other) s = Inl (invalidModeError s))"
  proof
    assume tbl: "nonASCIILower other"
    have s1: "ToLower (MapToLower other) s = ''strict'' \<longleftrightarrow> unicodeVariant s ''strict''"
      by (rule ToLower_unicodeVariant [OF tbl mode_letters(1)])
    have s2: "ToLower (MapToLower other) s = ''warn'' \<longleftrightarrow> caseVariant s ''warn''"
      using ToLower_unicodeVariant [OF tbl mode_letters(2), of s]
        unicodeVariant_plain [of "''warn''" s] by simp
    have s3: "ToLower (MapToLower other) s = ''report'' \<longleftrightarrow> caseVariant s ''report''"
      using ToLower_unicodeVariant [OF tbl mode_letters(3), of s]
        unicodeVariant_plain [of "''report''" s] by simp
    have b1: "unicodeVariant s ''strict'' \<longrightarrow> parseMode (MapToLower other) s = Inr ''strict''"
    proof
      assume "unicodeVariant s ''strict''"
      then have "ToLower (MapToLower other) s = ''strict''" using s1 by simp
      then show "parseMode (MapToLower other) s = Inr ''strict''"
        by (simp add: eq [of "MapToLower other"])
    qed
    have b2: "caseVariant s ''warn'' \<longrightarrow> parseMode (MapToLower other) s = Inr ''warn''"
      by (rule impI)
        (simp add: eq [of "MapToLower other"]
           ToLower_caseVariant(1) [OF mode_letters(2)])
    have b3: "caseVariant s ''report'' \<longrightarrow> parseMode (MapToLower other) s = Inr ''report''"
      by (rule impI)
        (simp add: eq [of "MapToLower other"]
           ToLower_caseVariant(1) [OF mode_letters(3)])
    have b4: "\<not> unicodeVariant s ''strict'' \<and> \<not> caseVariant s ''warn'' \<and>
       \<not> caseVariant s ''report'' \<longrightarrow>
         parseMode (MapToLower other) s = Inl (invalidModeError s)"
    proof
      assume "\<not> unicodeVariant s ''strict'' \<and> \<not> caseVariant s ''warn'' \<and>
       \<not> caseVariant s ''report''"
      then have "ToLower (MapToLower other) s \<noteq> ''strict''"
        "ToLower (MapToLower other) s \<noteq> ''warn''"
        "ToLower (MapToLower other) s \<noteq> ''report''"
        using s1 s2 s3 by simp_all
      then show "parseMode (MapToLower other) s = Inl (invalidModeError s)"
        by (simp add: eq [of "MapToLower other"])
    qed
    from b1 b2 b3 b4
    show "(unicodeVariant s ''strict'' \<longrightarrow> parseMode (MapToLower other) s = Inr ''strict'') \<and>
      (caseVariant s ''warn'' \<longrightarrow> parseMode (MapToLower other) s = Inr ''warn'') \<and>
      (caseVariant s ''report'' \<longrightarrow> parseMode (MapToLower other) s = Inr ''report'') \<and>
      (\<not> unicodeVariant s ''strict'' \<and> \<not> caseVariant s ''warn'' \<and>
       \<not> caseVariant s ''report'' \<longrightarrow>
         parseMode (MapToLower other) s = Inl (invalidModeError s))"
      by blast
  qed
  from eq [of ul] a1 a2 a3 a4 empty u show ?thesis by blast
qed

theorem parseMode_case_insensitive_witness:
  "caseVariant ''WaRn'' ''warn'' \<and>
   parseMode (unicodeLower exampleLibrary) ''WaRn'' = Inr ''warn'' \<and>
   caseVariant ''STRICT'' ''strict'' \<and>
   parseMode (unicodeLower exampleLibrary) ''STRICT'' = Inr ''strict'' \<and>
   caseVariant ''Report'' ''report'' \<and>
   parseMode (unicodeLower exampleLibrary) ''Report'' = Inr ''report'' \<and>
   (list_all isASCII ''invalid'' \<and> \<not> caseVariant ''invalid'' ''strict'' \<and>
    \<not> caseVariant ''invalid'' ''warn'' \<and> \<not> caseVariant ''invalid'' ''report'') \<and>
   parseMode (unicodeLower exampleLibrary) ''invalid'' = Inl (invalidModeError ''invalid'') \<and>
   nonASCIILower sameBytes \<and>
   unicodeVariant dottedStrict ''strict'' \<and>
   parseMode (MapToLower sameBytes) dottedStrict = Inr ''strict'' \<and>
   caseVariant ''WaRn'' ''warn'' \<and>
   parseMode (MapToLower sameBytes) ''WaRn'' = Inr ''warn'' \<and>
   (\<not> unicodeVariant dottedI ''strict'' \<and> \<not> caseVariant dottedI ''warn'' \<and>
    \<not> caseVariant dottedI ''report'') \<and>
   parseMode (MapToLower sameBytes) dottedI = Inl (invalidModeError dottedI)"
proof -
  have v1: "caseVariant ''WaRn'' ''warn''"
    by (simp add: upperASCII_def)
  have v2: "caseVariant ''STRICT'' ''strict''"
    by (simp add: upperASCII_def)
  have v3: "caseVariant ''Report'' ''report''"
    by (simp add: upperASCII_def)
  have n: "list_all isASCII ''invalid'' \<and> \<not> caseVariant ''invalid'' ''strict'' \<and>
      \<not> caseVariant ''invalid'' ''warn'' \<and> \<not> caseVariant ''invalid'' ''report''"
    by (simp add: isASCII_def upperASCII_def)
  have t: "nonASCIILower sameBytes" by (rule nonASCIILower_sameBytes)
  have u1: "unicodeVariant dottedStrict ''strict''" by (rule dotted_variants(1))
  have u2: "\<not> unicodeVariant dottedI ''strict'' \<and> \<not> caseVariant dottedI ''warn'' \<and>
      \<not> caseVariant dottedI ''report''"
    by (simp add: dottedI_def upperASCII_def kelvinSign_def)
  have w1: "parseMode (unicodeLower exampleLibrary) ''WaRn'' = Inr ''warn''"
    using v1 parseMode_case_insensitive [of "unicodeLower exampleLibrary" "''WaRn''"]
    by blast
  have w2: "parseMode (unicodeLower exampleLibrary) ''STRICT'' = Inr ''strict''"
    using v2 parseMode_case_insensitive [of "unicodeLower exampleLibrary" "''STRICT''"]
    by blast
  have w3: "parseMode (unicodeLower exampleLibrary) ''Report'' = Inr ''report''"
    using v3 parseMode_case_insensitive [of "unicodeLower exampleLibrary" "''Report''"]
    by blast
  have w4: "parseMode (unicodeLower exampleLibrary) ''invalid'' = Inl (invalidModeError ''invalid'')"
    using n parseMode_case_insensitive [of "unicodeLower exampleLibrary" "''invalid''"]
    by blast
  have w5: "parseMode (MapToLower sameBytes) dottedStrict = Inr ''strict''"
    using t u1 parseMode_case_insensitive [where other = sameBytes and s = dottedStrict]
    by blast
  have w6: "parseMode (MapToLower sameBytes) ''WaRn'' = Inr ''warn''"
    using t v1 parseMode_case_insensitive [where other = sameBytes and s = "''WaRn''"]
    by blast
  have w7: "parseMode (MapToLower sameBytes) dottedI = Inl (invalidModeError dottedI)"
    using t u2 parseMode_case_insensitive [where other = sameBytes and s = dottedI]
    by blast
  from v1 v2 v3 n w1 w2 w3 w4 t u1 w5 w6 u2 w7 show ?thesis by blast
qed

subsection \<open>Handlers with more attributes\<close>

lemma readSlice_length: "validSlice hp s \<Longrightarrow> length (readSlice hp s) = len s"
  by (auto simp: validSlice_def readSlice_def)

lemma readSlice_grow:
  "validSlice hp s \<Longrightarrow> readSlice (hp\<lparr>arrays := arrays hp @ xs\<rparr>) s = readSlice hp s"
  by (auto simp: validSlice_def readSlice_def nth_append)

lemma copy_first:
  assumes "validSlice hp s"
  shows "copySlice (hp\<lparr>arrays := arrays hp @ [replicate (len s + m) zeroAttr]\<rparr>)
           \<lparr>array = length (arrays hp), offset = 0, len = len s + m\<rparr> s =
         hp\<lparr>arrays := arrays hp @ [readSlice hp s @ replicate m zeroAttr]\<rparr>"
proof (cases "len s = 0")
  case True
  then show ?thesis by (simp add: copySlice_def readSlice_def)
next
  case False
  have "take (len s) (readSlice hp s) = readSlice hp s"
    using readSlice_length [OF assms] by simp
  then show ?thesis
    using False readSlice_grow [OF assms, of "[replicate (len s + m) zeroAttr]"]
    by (simp add: copySlice_def Let_def min_def)
qed

lemma copy_second:
  assumes "validSlice hp s" and "length xs = n"
  shows "copySlice (hp\<lparr>arrays := arrays hp @ [xs @ replicate (len s) zeroAttr]\<rparr>)
           (sliceFrom \<lparr>array = length (arrays hp), offset = 0, len = n + len s\<rparr> n) s =
         hp\<lparr>arrays := arrays hp @ [xs @ readSlice hp s]\<rparr>"
proof (cases "len s = 0")
  case True
  then show ?thesis by (simp add: copySlice_def readSlice_def sliceFrom_def)
next
  case False
  have "take (len s) (readSlice hp s) = readSlice hp s"
    using readSlice_length [OF assms(1)] by simp
  then show ?thesis
    using False assms(2) readSlice_grow [OF assms(1), of "[xs @ replicate (len s) zeroAttr]"]
    by (simp add: copySlice_def Let_def sliceFrom_def)
qed

lemma WithAttrs_result:
  assumes "h < length (handlers hp)"
    and "validSlice hp (attrs (handlers hp ! h))"
    and "validSlice hp as"
  shows "WithAttrs hp h as =
           Some (hp\<lparr>arrays := arrays hp @
                      [readSlice hp (attrs (handlers hp ! h)) @ readSlice hp as],
                    handlers := handlers hp @
                      [\<lparr>out = out (handlers hp ! h), level = level (handlers hp ! h),
                        attrs = \<lparr>array = length (arrays hp), offset = 0,
                                 len = len (attrs (handlers hp ! h)) + len as\<rparr>\<rparr>]\<rparr>,
                 length (handlers hp))"
proof -
  let ?s = "attrs (handlers hp ! h)"
  have c1: "copySlice (hp\<lparr>arrays := arrays hp @ [replicate (len ?s + len as) zeroAttr]\<rparr>)
           \<lparr>array = length (arrays hp), offset = 0, len = len ?s + len as\<rparr> ?s =
         hp\<lparr>arrays := arrays hp @ [readSlice hp ?s @ replicate (len as) zeroAttr]\<rparr>"
    by (rule copy_first [OF assms(2)])
  have c2: "copySlice (hp\<lparr>arrays := arrays hp @ [readSlice hp ?s @ replicate (len as) zeroAttr]\<rparr>)
           (sliceFrom \<lparr>array = length (arrays hp), offset = 0, len = len ?s + len as\<rparr> (len ?s)) as =
         hp\<lparr>arrays := arrays hp @ [readSlice hp ?s @ readSlice hp as]\<rparr>"
    by (rule copy_second [OF assms(3) readSlice_length [OF assms(2)]])
  show ?thesis
    using assms(1) by (simp add: WithAttrs_def makeAttrs_def Let_def c1 c2)
qed

lemma Handle_frame:
  "Handle hp g now rcd = Some (hp', e) \<Longrightarrow>
     arrays hp' = arrays hp \<and> handlers hp' = handlers hp"
  by (auto simp: Handle_def Write_def split: if_splits option.splits)

lemma handleAll_frame:
  "handleAll hp g items = Some hp' \<Longrightarrow>
     arrays hp' = arrays hp \<and> handlers hp' = handlers hp"
proof (induction items arbitrary: hp)
  case Nil
  then show ?case by simp
next
  case (Cons item items)
  obtain now rcd where item: "item = (now, rcd)" by (cases item)
  from Cons.prems item obtain hp1 e where
    step: "Handle hp g now rcd = Some (hp1, e)" and rest: "handleAll hp1 g items = Some hp'"
    by (auto split: option.splits)
  from Cons.IH [OF rest] Handle_frame [OF step] show ?case by simp
qed

lemma formatLine_arrays:
  "arrays hp' = arrays hp \<Longrightarrow> formatLine hp' hdl now rcd = formatLine hp hdl now rcd"
  by (simp add: formatLine_def readSlice_def)

lemma example_WithAttrs:
  "WithAttrs exampleHeap 0 requestAttrs =
     Some (\<lparr>arrays = [[serviceAttr], [requestAttr], [serviceAttr, requestAttr]],
            handlers = [\<lparr>out = 0, level = LevelInfo, attrs = \<lparr>array = 0, offset = 0, len = 1\<rparr>\<rparr>,
                        \<lparr>out = 0, level = LevelInfo, attrs = \<lparr>array = 2, offset = 0, len = 2\<rparr>\<rparr>],
            writers = [\<lparr>written = [], broken = None\<rparr>]\<rparr>, 1)"
  by (simp add: WithAttrs_def exampleHeap_def requestAttrs_def makeAttrs_def copySlice_def
        sliceFrom_def readSlice_def Let_def)

lemmas heap_defs =
  exampleHeap_def requestAttrs_def derivedHeap_def serviceAttr_def requestAttr_def
  startedRecord_def

lemma example_handleAll:
  "handleAll derivedHeap 1 [(''15:04:05'', startedRecord)] =
     Some (derivedHeap\<lparr>writers :=
        [\<lparr>written = esc # ''[90m15:04:05 '' @ esc # ''[33mWARN'' @ esc #
                      ''[0m Undocumented endpoint service=specgate request=7'' @ [CHR 0x0A],
          broken = None\<rparr>]\<rparr>)"
  by (simp add: heap_defs Handle_def Write_def formatLine_def readSlice_def formatAttr_def
        LevelString_def levelName_def LevelWarn_def LevelError_def LevelInfo_def LevelDebug_def
        colorGray_def colorYellow_def colorReset_def Itoa_def digits.simps)

text \<open>
  Claim C9. \<^verbatim>\<open>WithAttrs\<close> on a handler \<open>h\<close> with attributes \<open>as\<close> returns a new handler,
  at a new address, whose bound attributes are those of \<open>h\<close> followed by \<open>as\<close>, with the
  writer and level of \<open>h\<close>. The handler \<open>h\<close> is not modified: its fields and its bound
  attributes are the same after the call, nothing that was on the heap is changed, and
  whatever is logged through the new handler afterwards, \<open>h\<close> still builds the same line
  for the same record.
\<close>

theorem WithAttrs_leaves_original:
  assumes "h < length (handlers hp)"
    and "validSlice hp (attrs (handlers hp ! h))"
    and "validSlice hp as"
  shows "\<exists>hp' h'. WithAttrs hp h as = Some (hp', h') \<and>
           h' = length (handlers hp) \<and> h' \<noteq> h \<and> h' < length (handlers hp') \<and>
           readSlice hp' (attrs (handlers hp' ! h')) =
             readSlice hp (attrs (handlers hp ! h)) @ readSlice hp as \<and>
           out (handlers hp' ! h') = out (handlers hp ! h) \<and>
           level (handlers hp' ! h') = level (handlers hp ! h) \<and>
           handlers hp' ! h = handlers hp ! h \<and>
           readSlice hp' (attrs (handlers hp' ! h)) = readSlice hp (attrs (handlers hp ! h)) \<and>
           take (length (handlers hp)) (handlers hp') = handlers hp \<and>
           take (length (arrays hp)) (arrays hp') = arrays hp \<and>
           writers hp' = writers hp \<and>
           (\<forall>items hp'' now rcd.
              handleAll hp' h' items = Some hp'' \<longrightarrow>
                formatLine hp'' (handlers hp'' ! h) now rcd =
                  formatLine hp (handlers hp ! h) now rcd)"
proof -
  let ?xs = "readSlice hp (attrs (handlers hp ! h))"
  let ?new = "\<lparr>array = length (arrays hp), offset = 0,
               len = len (attrs (handlers hp ! h)) + len as\<rparr>"
  let ?hp' = "hp\<lparr>arrays := arrays hp @ [?xs @ readSlice hp as],
                handlers := handlers hp @
                  [\<lparr>out = out (handlers hp ! h), level = level (handlers hp ! h),
                    attrs = ?new\<rparr>]\<rparr>"
  have res: "WithAttrs hp h as = Some (?hp', length (handlers hp))"
    by (rule WithAttrs_result [OF assms])
  have len: "length ?xs = len (attrs (handlers hp ! h))" "length (readSlice hp as) = len as"
    using readSlice_length assms(2,3) by simp_all
  have new: "readSlice ?hp' ?new = ?xs @ readSlice hp as"
    using len by (simp add: readSlice_def)
  have old: "readSlice ?hp' (attrs (handlers hp ! h)) = ?xs"
    using assms(2) by (auto simp: readSlice_def validSlice_def nth_append)
  have same: "handlers ?hp' ! h = handlers hp ! h"
    using assms(1) by (simp add: nth_append)
  have line: "formatLine hp'' (handlers hp'' ! h) now rcd =
                formatLine hp (handlers hp ! h) now rcd"
    if run: "handleAll ?hp' (length (handlers hp)) items = Some hp''"
    for items hp'' now rcd
  proof -
    from handleAll_frame [OF run] have fr: "arrays hp'' = arrays ?hp'" "handlers hp'' = handlers ?hp'"
      by simp_all
    have "formatLine hp'' (handlers hp'' ! h) now rcd =
            formatLine ?hp' (handlers hp ! h) now rcd"
      using fr same by (simp add: formatLine_arrays)
    also have "\<dots> = formatLine hp (handlers hp ! h) now rcd"
      using old by (simp add: formatLine_def)
    finally show ?thesis .
  qed
  show ?thesis
  proof (intro exI conjI)
    show "WithAttrs hp h as = Some (?hp', length (handlers hp))" by (rule res)
    show "length (handlers hp) \<noteq> h" using assms(1) by simp
    show "readSlice ?hp' (attrs (handlers ?hp' ! length (handlers hp))) =
            ?xs @ readSlice hp as"
      using new by simp
    show "readSlice ?hp' (attrs (handlers ?hp' ! h)) = ?xs"
      using old same by simp
    show "handlers ?hp' ! h = handlers hp ! h" by (rule same)
    show "\<forall>items hp'' now rcd.
            handleAll ?hp' (length (handlers hp)) items = Some hp'' \<longrightarrow>
              formatLine hp'' (handlers hp'' ! h) now rcd =
                formatLine hp (handlers hp ! h) now rcd"
      using line by blast
  qed simp_all
qed

theorem WithAttrs_leaves_original_witness:
  "0 < length (handlers exampleHeap) \<and>
   validSlice exampleHeap (attrs (handlers exampleHeap ! 0)) \<and>
   validSlice exampleHeap requestAttrs \<and>
   WithAttrs exampleHeap 0 requestAttrs = Some (derivedHeap, 1) \<and>
   readSlice derivedHeap (attrs (handlers derivedHeap ! 1)) = [serviceAttr, requestAttr] \<and>
   readSlice derivedHeap (attrs (handlers derivedHeap ! 0)) = [serviceAttr] \<and>
   handleAll derivedHeap 1 [(''15:04:05'', startedRecord)] \<noteq> None \<and>
   formatLine (the (handleAll derivedHeap 1 [(''15:04:05'', startedRecord)]))
       (handlers (the (handleAll derivedHeap 1 [(''15:04:05'', startedRecord)])) ! 0)
       ''15:04:06'' startedRecord =
     formatLine exampleHeap (handlers exampleHeap ! 0) ''15:04:06'' startedRecord \<and>
   formatLine exampleHeap (handlers exampleHeap ! 0) ''15:04:06'' startedRecord =
     esc # ''[90m15:04:06 '' @ esc # ''[33mWARN'' @ esc #
     ''[0m Undocumented endpoint service=specgate'' @ [CHR 0x0A]"
proof -
  have h1: "0 < length (handlers exampleHeap)"
    by (simp add: exampleHeap_def)
  have h2: "validSlice exampleHeap (attrs (handlers exampleHeap ! 0))"
    by (simp add: exampleHeap_def validSlice_def)
  have h3: "validSlice exampleHeap requestAttrs"
    by (simp add: exampleHeap_def requestAttrs_def validSlice_def)
  have ev: "WithAttrs exampleHeap 0 requestAttrs = Some (derivedHeap, 1)"
    by (simp add: example_WithAttrs derivedHeap_def)
  from WithAttrs_leaves_original [OF h1 h2 h3] ev
  have new: "readSlice derivedHeap (attrs (handlers derivedHeap ! 1)) =
               readSlice exampleHeap (attrs (handlers exampleHeap ! 0)) @
               readSlice exampleHeap requestAttrs"
    and old: "readSlice derivedHeap (attrs (handlers derivedHeap ! 0)) =
               readSlice exampleHeap (attrs (handlers exampleHeap ! 0))"
    and line: "\<And>items hp'' now rcd.
              handleAll derivedHeap 1 items = Some hp'' \<Longrightarrow>
                formatLine hp'' (handlers hp'' ! 0) now rcd =
                  formatLine exampleHeap (handlers exampleHeap ! 0) now rcd"
    by auto
  have rd: "readSlice exampleHeap (attrs (handlers exampleHeap ! 0)) = [serviceAttr]"
      "readSlice exampleHeap requestAttrs = [requestAttr]"
    by (simp_all add: exampleHeap_def requestAttrs_def readSlice_def)
  have run: "handleAll derivedHeap 1 [(''15:04:05'', startedRecord)] \<noteq> None"
    unfolding example_handleAll by (rule option.distinct(2))
  then obtain hp'' where some: "handleAll derivedHeap 1 [(''15:04:05'', startedRecord)] = Some hp''"
    by blast
  have same: "formatLine (the (handleAll derivedHeap 1 [(''15:04:05'', startedRecord)]))
       (handlers (the (handleAll derivedHeap 1 [(''15:04:05'', startedRecord)])) ! 0)
       ''15:04:06'' startedRecord =
     formatLine exampleHeap (handlers exampleHeap ! 0) ''15:04:06'' startedRecord"
    using line [OF some] some by simp
  have rendered: "formatLine exampleHeap (handlers exampleHeap ! 0) ''15:04:06'' startedRecord =
     esc # ''[90m15:04:06 '' @ esc # ''[33mWARN'' @ esc #
     ''[0m Undocumented endpoint service=specgate'' @ [CHR 0x0A]"
    by (simp add: heap_defs formatLine_def readSlice_def formatAttr_def
        LevelString_def levelName_def LevelWarn_def LevelError_def LevelInfo_def LevelDebug_def
        colorGray_def colorYellow_def colorReset_def)
  from h1 h2 h3 ev new old run same rendered show ?thesis
    unfolding rd by simp
qed

end
